theory Spec2Isabelle
  imports Main
begin

section \<open>Data model of dataviews/collector.py\<close>

text \<open>
  ViewGroup, ViewRef, Aggregator, Analysis and Collector are Python classes whose
  instances are mutable and shared by reference: a subtree adopted by
  \<^verbatim>\<open>ViewGroup.update\<close> is the same object in both trees, and the leaf stored in
  \<^verbatim>\<open>path_items\<close> is the object stored in the tree slot. Objects therefore live in
  a store, indexed by addresses, and every method takes the state and returns it
  updated, together with either the raised error or the returned value.
\<close>

type_synonym addr = nat

text \<open>Time values (the clock's \<^verbatim>\<open>time_type\<close>) are modelled as integers.\<close>

type_synonym time = int

text \<open>
  The exceptions of the module. The source raises \<^verbatim>\<open>AttributeError\<close> and
  \<^verbatim>\<open>Exception\<close> with distinct messages; each message is one constructor, named
  after the error taxonomy of the specification:
  \<^item> FixedTreeError: \<^verbatim>\<open>AttributeError(self._fixed_error)\<close>;
  \<^item> AttributeError l: \<^verbatim>\<open>AttributeError(str(label))\<close> and attribute lookups that
    fail on a value;
  \<^item> UnresolvedReferenceError spec l: \<^verbatim>\<open>"Could not resolve %r at level %r"\<close>;
  \<^item> SelfCompositionError: \<^verbatim>\<open>"Please ensure that each operand are distinct ..."\<close>;
  \<^item> SchedulingError: both exceptions of \<^verbatim>\<open>_schedule_tasks\<close>;
  \<^item> UnscheduledTaskError: \<^verbatim>\<open>"Aggregation path not set."\<close>;
  \<^item> MissingTimeDimensionError: \<^verbatim>\<open>"Time dimension is missing."\<close>;
  \<^item> TypeMismatchError: \<^verbatim>\<open>"Return value is not a ViewGroup and mode is 'merge'."\<close>;
  \<^item> KeyError, IndexError, TypeError: the builtin exceptions;
  \<^item> OutOfFuel: the step bound of a recursive method is exhausted;
  \<^item> Unmodelled: the input is outside what this development covers (a label that
    is the name of one of the object's own attributes, a dangling address).
\<close>

datatype error =
    FixedTreeError
  | AttributeError string
  | UnresolvedReferenceError string string
  | SelfCompositionError
  | SchedulingError
  | UnscheduledTaskError
  | MissingTimeDimensionError
  | TypeMismatchError
  | KeyError
  | IndexError
  | TypeError
  | OutOfFuel
  | Unmodelled

text \<open>
  A key of \<^verbatim>\<open>path_items\<close>: a tuple of labels (set by \<^verbatim>\<open>_propagate\<close>) or a plain
  string (the \<^verbatim>\<open>uuid4().hex\<close> key of a task in merge mode).
\<close>

datatype key = KTuple "string list" | KStr string

text \<open>A View, as far as the collector reads it: its data and its title.\<close>

record view =
  data :: string
  title :: string

text \<open>
  Python values that occur as tree items: a ViewGroup or a Stack (by address), a
  View, a task (by its number in the task table), an overlay of values, a boolean
  and \<^verbatim>\<open>None\<close>.
\<close>

datatype val =
    VNone
  | VBool bool
  | VGroup addr
  | VStack addr
  | VView view
  | VTask nat
  | VOverlay "val list"

text \<open>
  The instance dictionary of a ViewGroup. \<^verbatim>\<open>attrs\<close> holds the entries of
  \<^verbatim>\<open>__dict__\<close> stored under labels; \<^verbatim>\<open>scheduled_tasks\<close> is the
  \<^verbatim>\<open>_scheduled_tasks\<close> entry of a Collector (a Collector is a ViewGroup).
\<close>

record viewgroup =
  parent :: "addr option"
  label :: "string option"
  children :: "string list"
  path_items :: "(key \<times> val) list"
  fixed :: bool
  attrs :: "(string \<times> val) list"
  scheduled_tasks :: "nat list"

text \<open>
  Modelled from the spec: the time-series container (Stack, an NdMapping of
  dataviews/views.py, which is not among the sources). It maps time keys to values,
  supports time-keyed insertion, an update from another container, and reports the
  labels of its dimensions.
\<close>

record stack =
  entries :: "(time \<times> val) list"
  dimension_labels :: "string list"

datatype obj = OGroup viewgroup | OStack stack

type_synonym heap = "addr \<Rightarrow> obj option"

text \<open>
  Modelled from the spec: the clock (\<^verbatim>\<open>param.Dynamic.time_fn\<close>, not among the
  sources): \<^verbatim>\<open>advance(delta)\<close> moves the current time, calling the clock reads it.
  The trace records every call, oldest first.
\<close>

datatype clock_event = Advance time | Sample

record clock =
  now :: time
  trace :: "clock_event list"

text \<open>
  What a hook returns: nothing, a View, a Stack, or a ViewGroup, the latter given by
  the leaf assignments that build it. The hook of an Aggregator is an external
  callable applied to an external object; its result is taken here as a function of
  the current time of the clock. The operation of an Analysis is a function of the
  resolved value and the store it lives in.
\<close>

datatype hookleaf = LView view | LStack stack

datatype hookres =
    RNone
  | RLeaf hookleaf
  | RGroup "(string list \<times> hookleaf) list"

datatype mode = SET | MERGE

text \<open>
  An index passed to \<^verbatim>\<open>__getitem__\<close> of a leaf value.
\<close>

datatype idx = ILabel string | IIndex int | ISlice "int option" "int option"

text \<open>
  A ViewRef: the specification list (\<^verbatim>\<open>specification\<close>) and the slices dictionary (a slice of
  \<^verbatim>\<open>None\<close> is an entry holding \<open>None\<close>).
\<close>

record viewref =
  specification_list :: "string list list"
  slices :: "(string list \<times> idx option) list"

datatype task =
    Aggregator (hook: "time \<Rightarrow> hookres") (mode: mode) (path: "key option")
  | Analysis (reference: viewref) (analysis: "heap \<Rightarrow> val \<Rightarrow> hookres")
      (stackwise: bool) (mode: mode) (path: "key option")

text \<open>
  The state: the store with its next free address, the task table, the clock, and
  the object that is the default value of the \<^verbatim>\<open>viewgroup\<close> parameter of
  \<^verbatim>\<open>Collector.__call__\<close> (Python evaluates \<^verbatim>\<open>ViewGroup()\<close> once, when the method
  is defined).
\<close>

record state =
  heap :: heap
  nxt :: addr
  tasks :: "nat \<Rightarrow> task option"
  clk :: clock
  default_viewgroup :: addr

type_synonym 'a res = "(error + 'a) \<times> state"

definition ret :: "'a \<Rightarrow> state \<Rightarrow> 'a res" where
  "ret x s = (Inr x, s)"

definition raise :: "error \<Rightarrow> state \<Rightarrow> 'a res" where
  "raise e s = (Inl e, s)"

definition bnd :: "(state \<Rightarrow> 'a res) \<Rightarrow> ('a \<Rightarrow> state \<Rightarrow> 'b res) \<Rightarrow> state \<Rightarrow> 'b res" where
  "bnd m f s = (case m s of (Inl e, s') \<Rightarrow> (Inl e, s') | (Inr x, s') \<Rightarrow> f x s')"

subsection \<open>OrderedDict\<close>

text \<open>
  \<^verbatim>\<open>d[k] = v\<close> on an OrderedDict: an existing key keeps its position and takes the
  new value, a new key is appended.
\<close>

fun dict_set :: "('k \<times> 'v) list \<Rightarrow> 'k \<Rightarrow> 'v \<Rightarrow> ('k \<times> 'v) list" where
  "dict_set [] k v = [(k, v)]"
| "dict_set ((k', v') # d) k v =
     (if k' = k then (k, v) # d else (k', v') # dict_set d k v)"

text \<open>\<^verbatim>\<open>d.update(other)\<close>: every item of \<^verbatim>\<open>other\<close> is stored in turn.\<close>

fun dict_update :: "('k \<times> 'v) list \<Rightarrow> ('k \<times> 'v) list \<Rightarrow> ('k \<times> 'v) list" where
  "dict_update d [] = d"
| "dict_update d ((k, v) # other) = dict_update (dict_set d k v) other"

definition dict_keys :: "('k \<times> 'v) list \<Rightarrow> 'k list" where
  "dict_keys d = map fst d"

subsection \<open>Store access\<close>

definition get_group :: "addr \<Rightarrow> state \<Rightarrow> viewgroup res" where
  "get_group a s =
     (case heap s a of Some (OGroup g) \<Rightarrow> (Inr g, s) | _ \<Rightarrow> (Inl Unmodelled, s))"

definition put_group :: "addr \<Rightarrow> viewgroup \<Rightarrow> state \<Rightarrow> unit res" where
  "put_group a g s = (Inr (), s\<lparr>heap := (heap s)(a \<mapsto> OGroup g)\<rparr>)"

definition get_stack :: "addr \<Rightarrow> state \<Rightarrow> stack res" where
  "get_stack a s =
     (case heap s a of Some (OStack k) \<Rightarrow> (Inr k, s) | _ \<Rightarrow> (Inl Unmodelled, s))"

definition put_stack :: "addr \<Rightarrow> stack \<Rightarrow> state \<Rightarrow> unit res" where
  "put_stack a k s = (Inr (), s\<lparr>heap := (heap s)(a \<mapsto> OStack k)\<rparr>)"

text \<open>
  Object creation takes the next address; a state whose next address is occupied is
  not one the program can reach.
\<close>

definition alloc :: "obj \<Rightarrow> state \<Rightarrow> addr res" where
  "alloc ob s =
     (case heap s (nxt s) of
        None \<Rightarrow> (Inr (nxt s), s\<lparr>heap := (heap s)(nxt s \<mapsto> ob), nxt := Suc (nxt s)\<rparr>)
      | Some _ \<Rightarrow> (Inl Unmodelled, s))"

text \<open>\<^verbatim>\<open>ViewGroup.__init__(label, parent)\<close>.\<close>

definition new_viewgroup :: "string option \<Rightarrow> addr option \<Rightarrow> viewgroup" where
  "new_viewgroup l p =
     \<lparr>parent = p, label = l, children = [], path_items = [], fixed = False,
      attrs = [], scheduled_tasks = []\<rparr>"

definition ViewGroup_init :: "string option \<Rightarrow> addr option \<Rightarrow> state \<Rightarrow> addr res" where
  "ViewGroup_init l p = alloc (OGroup (new_viewgroup l p))"

subsection \<open>ViewGroup\<close>

definition startswith_underscore :: "string \<Rightarrow> bool" where
  "startswith_underscore l = (case l of [] \<Rightarrow> False | c # _ \<Rightarrow> c = CHR ''_'')"

text \<open>
  The names of the attributes a ViewGroup or Collector holds in its own
  \<^verbatim>\<open>__dict__\<close>. A label equal to one of them would address the attribute instead of a
  tree item; such labels are outside this development.
\<close>

definition own_attribute :: "string \<Rightarrow> bool" where
  "own_attribute l =
     (l \<in> set [''parent'', ''label'', ''children'', ''path_items'', ''refs'',
               ''_fixed'', ''_fixed_error'', ''_scheduled_tasks''])"

text \<open>
  \<^verbatim>\<open>__contains__\<close>: \<^verbatim>\<open>name in self.children or name in self.path_items\<close>. The children
  are strings, so only a string name can be among them.
\<close>

definition contains :: "viewgroup \<Rightarrow> key \<Rightarrow> bool" where
  "contains g name =
     ((case name of KStr l \<Rightarrow> l \<in> set (children g) | KTuple _ \<Rightarrow> False)
      \<or> name \<in> set (dict_keys (path_items g)))"

text \<open>\<^verbatim>\<open>__getitem__\<close>: \<^verbatim>\<open>self.__dict__[label]\<close>.\<close>

definition getitem :: "addr \<Rightarrow> string \<Rightarrow> state \<Rightarrow> val res" where
  "getitem a l =
     bnd (get_group a) (\<lambda>g.
       if own_attribute l \<or> l = ''fixed'' then raise Unmodelled
       else case map_of (attrs g) l of None \<Rightarrow> raise KeyError | Some v \<Rightarrow> ret v)"

text \<open>
  \<^verbatim>\<open>_propagate\<close>: the value travels up the parent links, the path growing by the label
  of every node left, and is stored in the \<^verbatim>\<open>path_items\<close> of the root.
\<close>

fun propagate :: "nat \<Rightarrow> addr \<Rightarrow> string list \<Rightarrow> val \<Rightarrow> state \<Rightarrow> unit res" where
  "propagate 0 a p v = raise OutOfFuel"
| "propagate (Suc n) a p v =
     bnd (get_group a) (\<lambda>g.
       case parent g of
         None \<Rightarrow> put_group a (g\<lparr>path_items := dict_set (path_items g) (KTuple p) v\<rparr>)
       | Some pa \<Rightarrow>
           (case label g of
              None \<Rightarrow> raise Unmodelled
            | Some l \<Rightarrow> propagate n pa (l # p) v))"

text \<open>
  \<^verbatim>\<open>shallow = (self.parent is None or self.parent.parent is None)\<close>.
\<close>

definition shallow :: "viewgroup \<Rightarrow> state \<Rightarrow> bool res" where
  "shallow g =
     (case parent g of
        None \<Rightarrow> ret True
      | Some pa \<Rightarrow> bnd (get_group pa) (\<lambda>pg. ret (parent pg = None)))"

text \<open>
  \<^verbatim>\<open>__setattr__\<close>. The label \<^verbatim>\<open>fixed\<close> is the property: its setter stores the flag.
  Any other label is stored in \<^verbatim>\<open>__dict__\<close>; a label that neither starts with an
  underscore nor is among the children is appended to them and propagated.
\<close>

definition setattr :: "nat \<Rightarrow> addr \<Rightarrow> string \<Rightarrow> val \<Rightarrow> state \<Rightarrow> unit res" where
  "setattr n a l v =
     bnd (get_group a) (\<lambda>g.
     bnd (shallow g) (\<lambda>sh.
       if l \<noteq> ''fixed'' \<and> fixed g \<and> sh then raise FixedTreeError
       else if l = ''fixed'' then
         (case v of VBool b \<Rightarrow> put_group a (g\<lparr>fixed := b\<rparr>) | _ \<Rightarrow> raise Unmodelled)
       else if own_attribute l then raise Unmodelled
       else
         bnd (put_group a (g\<lparr>attrs := dict_set (attrs g) l v\<rparr>)) (\<lambda>_.
           if \<not> (startswith_underscore l \<or> l \<in> set (children g)) then
             bnd (put_group a (g\<lparr>attrs := dict_set (attrs g) l v,
                                 children := children g @ [l]\<rparr>)) (\<lambda>_.
               propagate n a [l] v)
           else ret ())))"

text \<open>\<^verbatim>\<open>__setitem__\<close> is \<^verbatim>\<open>__setattr__\<close>.\<close>

definition setitem :: "nat \<Rightarrow> addr \<Rightarrow> string \<Rightarrow> val \<Rightarrow> state \<Rightarrow> unit res" where
  "setitem n a l v = setattr n a l v"

text \<open>
  \<^verbatim>\<open>__getattr__\<close>, as the method itself (\<^verbatim>\<open>set_path\<close> calls it directly). The call
  to the superclass always raises, \<^verbatim>\<open>object\<close> having no \<^verbatim>\<open>__getattr__\<close>, and the
  exception is passed over.
\<close>

definition getattr :: "addr \<Rightarrow> string \<Rightarrow> state \<Rightarrow> val res" where
  "getattr a l =
     bnd (get_group a) (\<lambda>g.
       if startswith_underscore l then raise (AttributeError l)
       else if fixed g then raise FixedTreeError
       else if own_attribute l \<or> l = ''fixed'' then raise Unmodelled
       else if l \<in> set (children g) then
         (case map_of (attrs g) l of None \<Rightarrow> raise KeyError | Some v \<Rightarrow> ret v)
       else
         bnd (put_group a (g\<lparr>children := children g @ [l]\<rparr>)) (\<lambda>_.
         bnd (ViewGroup_init (Some l) (Some a)) (\<lambda>c.
         bnd (get_group a) (\<lambda>g'.
         bnd (put_group a (g'\<lparr>attrs := dict_set (attrs g') l (VGroup c)\<rparr>)) (\<lambda>_.
           ret (VGroup c))))))"

text \<open>
  \<^verbatim>\<open>set_path\<close>. An empty path fails at \<^verbatim>\<open>path[0]\<close>; an inner item that is not a
  ViewGroup has no \<^verbatim>\<open>set_path\<close>.
\<close>

fun set_path :: "nat \<Rightarrow> addr \<Rightarrow> string list \<Rightarrow> val \<Rightarrow> state \<Rightarrow> unit res" where
  "set_path n a [] v = raise IndexError"
| "set_path n a [l] v = setattr n a l v"
| "set_path n a (l # p) v =
     bnd (getattr a l) (\<lambda>c.
       case c of
         VGroup ca \<Rightarrow> set_path n ca p v
       | _ \<Rightarrow> raise (AttributeError ''set_path''))"


subsection \<open>Stack\<close>

text \<open>
  Modelled from the spec: \<^verbatim>\<open>stack[time] = val\<close> (time-keyed insertion) and
  \<^verbatim>\<open>stack.update(other)\<close> (every item of the other container is stored).
\<close>

definition stack_setitem :: "addr \<Rightarrow> time \<Rightarrow> val \<Rightarrow> state \<Rightarrow> unit res" where
  "stack_setitem a t v =
     bnd (get_stack a) (\<lambda>k. put_stack a (k\<lparr>entries := dict_set (entries k) t v\<rparr>))"

definition stack_update :: "addr \<Rightarrow> addr \<Rightarrow> state \<Rightarrow> unit res" where
  "stack_update a b =
     bnd (get_stack a) (\<lambda>k.
     bnd (get_stack b) (\<lambda>k'.
       put_stack a (k\<lparr>entries := dict_update (entries k) (entries k')\<rparr>)))"

subsection \<open>ViewGroup.update\<close>

text \<open>
  \<^verbatim>\<open>update\<close> and its loop over \<^verbatim>\<open>other.children\<close>. The loop reads the list of the
  other node at every iteration, as the iterator of a Python list does, so the list
  may grow while it is walked; the first argument bounds the number of calls and
  iterations. \<^verbatim>\<open>self[label].update(item)\<close> is the method of whatever the item is:
  \<^verbatim>\<open>ViewGroup.update\<close> for a ViewGroup, the update of the container for a Stack;
  \<^verbatim>\<open>None\<close>, a boolean and a task have no such method. The other operand of
  \<^verbatim>\<open>ViewGroup.update\<close> must have \<^verbatim>\<open>path_items\<close> and \<^verbatim>\<open>children\<close>.
\<close>

fun update :: "nat \<Rightarrow> addr \<Rightarrow> val \<Rightarrow> state \<Rightarrow> unit res"
  and update_children :: "nat \<Rightarrow> addr \<Rightarrow> val \<Rightarrow> nat \<Rightarrow> state \<Rightarrow> unit res"
where
  "update 0 self other = raise OutOfFuel"
| "update (Suc n) self other =
     bnd (get_group self) (\<lambda>g.
     bnd (if parent g = None then
            (case other of
               VGroup oa \<Rightarrow>
                 bnd (get_group oa) (\<lambda>og.
                   put_group self
                     (g\<lparr>path_items := dict_update (path_items g) (path_items og)\<rparr>))
             | _ \<Rightarrow> raise (AttributeError ''path_items''))
          else ret ()) (\<lambda>_.
       update_children n self other 0))"
| "update_children 0 self other i = raise OutOfFuel"
| "update_children (Suc n) self other i =
     (case other of
        VGroup oa \<Rightarrow>
          bnd (get_group oa) (\<lambda>og.
            if length (children og) \<le> i then ret ()
            else
              bnd (getitem oa (children og ! i)) (\<lambda>item.
              bnd (get_group self) (\<lambda>g.
              bnd (if \<not> contains g (KStr (children og ! i)) then
                     setitem n self (children og ! i) item
                   else
                     bnd (getitem self (children og ! i)) (\<lambda>mine.
                       case mine of
                         VGroup ma \<Rightarrow> update n ma item
                       | VStack sa \<Rightarrow>
                           (case item of
                              VStack sb \<Rightarrow> stack_update sa sb
                            | _ \<Rightarrow> raise Unmodelled)
                       | VView _ \<Rightarrow> raise Unmodelled
                       | VOverlay _ \<Rightarrow> raise Unmodelled
                       | _ \<Rightarrow> raise (AttributeError ''update''))) (\<lambda>_.
                update_children n self other (Suc i)))))
      | _ \<Rightarrow> raise (AttributeError ''children''))"


subsection \<open>ViewRef\<close>

text \<open>
  The operators of the leaf values (Views, Stacks, Overlays) are defined in
  dataviews/views.py, which is not among the sources; they are parameters of the
  development: membership (\<^verbatim>\<open>label in obj\<close>), indexing (\<^verbatim>\<open>obj[index]\<close>) and the
  overlay operator (\<^verbatim>\<open>a * b\<close>). Each may raise.
\<close>

record leaf_ops =
  leaf_contains :: "heap \<Rightarrow> val \<Rightarrow> string \<Rightarrow> error + bool"
  leaf_getitem :: "heap \<Rightarrow> val \<Rightarrow> idx \<Rightarrow> error + val"
  leaf_mul :: "heap \<Rightarrow> val \<Rightarrow> val \<Rightarrow> error + val"

text \<open>\<^verbatim>\<open>sep.join(xs)\<close>.\<close>

fun join :: "string \<Rightarrow> string list \<Rightarrow> string" where
  "join sep [] = []"
| "join sep [x] = x"
| "join sep (x # xs) = x @ sep @ join sep xs"

text \<open>\<^verbatim>\<open>label in obj\<close> and \<^verbatim>\<open>obj[index]\<close> for any value.\<close>

definition val_contains :: "leaf_ops \<Rightarrow> state \<Rightarrow> val \<Rightarrow> string \<Rightarrow> error + bool" where
  "val_contains ops s ob l =
     (case ob of
        VGroup a \<Rightarrow>
          (case fst (get_group a s) of
             Inl e \<Rightarrow> Inl e
           | Inr g \<Rightarrow> Inr (contains g (KStr l)))
      | _ \<Rightarrow> leaf_contains ops (heap s) ob l)"

definition val_getitem :: "leaf_ops \<Rightarrow> state \<Rightarrow> val \<Rightarrow> idx \<Rightarrow> error + val" where
  "val_getitem ops s ob i =
     (case ob of
        VGroup a \<Rightarrow>
          (case i of
             ILabel l \<Rightarrow> fst (getitem a l s)
           | _ \<Rightarrow> Inl KeyError)
      | _ \<Rightarrow> leaf_getitem ops (heap s) ob i)"

text \<open>
  \<^verbatim>\<open>_resolve_ref\<close>: the loop over the labels of \<^verbatim>\<open>ref\<close>; the whole \<^verbatim>\<open>ref\<close> is kept for
  the message of the error.
\<close>

fun resolve_walk :: "leaf_ops \<Rightarrow> state \<Rightarrow> string list \<Rightarrow> val \<Rightarrow> string list \<Rightarrow> error + val" where
  "resolve_walk ops s ref ob [] = Inr ob"
| "resolve_walk ops s ref ob (l # ls) =
     (case val_contains ops s ob l of
        Inl e \<Rightarrow> Inl e
      | Inr True \<Rightarrow>
          (case val_getitem ops s ob (ILabel l) of
             Inl e \<Rightarrow> Inl e
           | Inr ob' \<Rightarrow> resolve_walk ops s ref ob' ls)
      | Inr False \<Rightarrow> Inl (UnresolvedReferenceError (join ''.'' ref) l))"

definition resolve_ref :: "leaf_ops \<Rightarrow> state \<Rightarrow> string list \<Rightarrow> val \<Rightarrow> error + val" where
  "resolve_ref ops s ref viewgroup = resolve_walk ops s ref viewgroup ref"

text \<open>
  \<^verbatim>\<open>resolve\<close>: the loop over the specification, with the overlaid view so far
  (\<^verbatim>\<open>None\<close> at the start).
\<close>

fun resolve_loop ::
  "leaf_ops \<Rightarrow> state \<Rightarrow> (string list \<times> idx option) list \<Rightarrow> val \<Rightarrow> val \<Rightarrow> string list list
     \<Rightarrow> error + val" where
  "resolve_loop ops s sl viewgroup overlaid [] = Inr overlaid"
| "resolve_loop ops s sl viewgroup overlaid (ref # refs) =
     (case resolve_ref ops s ref viewgroup of
        Inl e \<Rightarrow> Inl e
      | Inr view \<Rightarrow>
          (case (case map_of sl ref of
                   Some (Some slc) \<Rightarrow> val_getitem ops s view slc
                 | _ \<Rightarrow> Inr view) of
             Inl e \<Rightarrow> Inl e
           | Inr view' \<Rightarrow>
               (case (if overlaid = VNone then Inr view'
                      else leaf_mul ops (heap s) overlaid view') of
                  Inl e \<Rightarrow> Inl e
                | Inr overlaid' \<Rightarrow> resolve_loop ops s sl viewgroup overlaid' refs)))"

definition resolve :: "leaf_ops \<Rightarrow> state \<Rightarrow> viewref \<Rightarrow> val \<Rightarrow> error + val" where
  "resolve ops s r viewgroup =
     resolve_loop ops s (slices r) viewgroup VNone (specification_list r)"



definition ViewRef_getattr :: "viewref \<Rightarrow> string \<Rightarrow> error + viewref" where
  "ViewRef_getattr r l =
     (if startswith_underscore l \<or> length (specification_list r) > 1
      then Inl (AttributeError l)
      else if length (specification_list r) = 0
      then Inr (r\<lparr>specification_list := [[l]]\<rparr>)
      else Inr (r\<lparr>specification_list := [hd (specification_list r) @ [l]]\<rparr>))"



subsection \<open>Aggregator and Analysis\<close>

definition get_task :: "nat \<Rightarrow> state \<Rightarrow> task res" where
  "get_task tid s =
     (case tasks s tid of Some t \<Rightarrow> (Inr t, s) | None \<Rightarrow> (Inl Unmodelled, s))"

text \<open>\<^verbatim>\<open>task.path = path\<close>.\<close>

definition set_task_path :: "nat \<Rightarrow> key \<Rightarrow> state \<Rightarrow> unit res" where
  "set_task_path tid p =
     bnd (get_task tid) (\<lambda>t. \<lambda>s.
       (Inr (),
        s\<lparr>tasks := (tasks s)(tid \<mapsto>
             (case t of
                Aggregator h m _ \<Rightarrow> Aggregator h m (Some p)
              | Analysis r an sw m _ \<Rightarrow> Analysis r an sw m (Some p)))\<rparr>))"

text \<open>\<^verbatim>\<open>tuple(path)\<close>: a tuple is itself, a string becomes the tuple of its characters.\<close>

definition key_tuple :: "key \<Rightarrow> string list" where
  "key_tuple k = (case k of KTuple p \<Rightarrow> p | KStr str \<Rightarrow> map (\<lambda>c. [c]) str)"

text \<open>
  The object a hook returns comes into the store when the hook returns: a Stack is a
  new object, a ViewGroup is a new root to which the hook assigns its leaves.
\<close>

definition materialise_leaf :: "hookleaf \<Rightarrow> state \<Rightarrow> val res" where
  "materialise_leaf lf =
     (case lf of
        LView v \<Rightarrow> ret (VView v)
      | LStack k \<Rightarrow> bnd (alloc (OStack k)) (\<lambda>a. ret (VStack a)))"

fun assign_leaves :: "nat \<Rightarrow> addr \<Rightarrow> (string list \<times> hookleaf) list \<Rightarrow> state \<Rightarrow> unit res" where
  "assign_leaves n a [] = ret ()"
| "assign_leaves n a ((p, lf) # rest) =
     bnd (materialise_leaf lf) (\<lambda>v.
     bnd (set_path n a p v) (\<lambda>_.
       assign_leaves n a rest))"

definition materialise :: "nat \<Rightarrow> hookres \<Rightarrow> state \<Rightarrow> val res" where
  "materialise n r =
     (case r of
        RNone \<Rightarrow> ret VNone
      | RLeaf lf \<Rightarrow> materialise_leaf lf
      | RGroup asg \<Rightarrow>
          bnd (ViewGroup_init None None) (\<lambda>a.
          bnd (assign_leaves n a asg) (\<lambda>_.
            ret (VGroup a))))"

text \<open>
  \<^verbatim>\<open>_get_result\<close> of Aggregator and of Analysis. \<^verbatim>\<open>times[-1]\<close> is read only by a
  stackwise Analysis and fails on an empty list.
\<close>

definition get_result ::
  "leaf_ops \<Rightarrow> task \<Rightarrow> val \<Rightarrow> time \<Rightarrow> time list \<Rightarrow> state \<Rightarrow> error + hookres" where
  "get_result ops t viewgroup tm tms s =
     (case t of
        Aggregator h _ _ \<Rightarrow> Inr (h (now (clk s)))
      | Analysis r an sw _ _ \<Rightarrow>
          if sw \<and> tms = [] then Inl IndexError
          else if sw \<and> tm = last tms then
            (case resolve ops s r viewgroup of
               Inl e \<Rightarrow> Inl e
             | Inr view \<Rightarrow> Inr (an (heap s) view))
          else if sw then Inr RNone
          else
            (case resolve ops s r viewgroup of
               Inl e \<Rightarrow> Inl e
             | Inr view \<Rightarrow> Inr (an (heap s) view)))"

text \<open>
  \<^verbatim>\<open>_merge_views\<close>. Storing under a time key is modelled for a Stack only.
\<close>

definition merge_views :: "nat \<Rightarrow> val \<Rightarrow> val \<Rightarrow> time \<Rightarrow> state \<Rightarrow> val res" where
  "merge_views n current_val v tm =
     (case v of
        VView _ \<Rightarrow>
          (case current_val of
             VStack a \<Rightarrow> bnd (stack_setitem a tm v) (\<lambda>_. ret current_val)
           | _ \<Rightarrow> raise Unmodelled)
      | _ \<Rightarrow>
          (case current_val of
             VStack a \<Rightarrow>
               bnd (get_stack a) (\<lambda>k.
                 if ''time'' \<notin> set (dimension_labels k) then raise MissingTimeDimensionError
                 else
                   (case v of
                      VStack b \<Rightarrow> bnd (stack_update a b) (\<lambda>_. ret current_val)
                    | _ \<Rightarrow> raise Unmodelled))
           | VGroup a \<Rightarrow> bnd (update n a v) (\<lambda>_. ret current_val)
           | VView _ \<Rightarrow> raise Unmodelled
           | VOverlay _ \<Rightarrow> raise Unmodelled
           | _ \<Rightarrow> raise (AttributeError ''update'')))"

text \<open>
  \<^verbatim>\<open>Aggregator.__call__\<close> (inherited by Analysis), on the task with the given number.
\<close>

definition task_call ::
  "leaf_ops \<Rightarrow> nat \<Rightarrow> nat \<Rightarrow> addr \<Rightarrow> time \<Rightarrow> time list \<Rightarrow> state \<Rightarrow> addr res" where
  "task_call ops n tid viewgroup tm tms =
     bnd (get_task tid) (\<lambda>t.
       case path t of
         None \<Rightarrow> raise UnscheduledTaskError
       | Some p \<Rightarrow>
           bnd (\<lambda>s. (get_result ops t (VGroup viewgroup) tm tms s, s)) (\<lambda>r.
           bnd (materialise n r) (\<lambda>v.
             if v = VNone then ret viewgroup
             else if mode t = MERGE then
               (case v of
                  VGroup _ \<Rightarrow> bnd (update n viewgroup v) (\<lambda>_. ret viewgroup)
                | _ \<Rightarrow> raise TypeMismatchError)
             else
               bnd (get_group viewgroup) (\<lambda>g.
               bnd (if \<not> contains g p then
                      (case v of
                         VView w \<Rightarrow>
                           bnd (alloc (OStack
                                  \<lparr>entries =
                                     [(tm, VView (if title w = ''{label}''
                                                  then w\<lparr>title := join '' '' (rev (key_tuple p)) @ title w\<rparr>
                                                  else w))],
                                   dimension_labels = [''time'']\<rparr>))
                             (\<lambda>a. ret (VStack a))
                       | VStack _ \<Rightarrow> ret v
                       | _ \<Rightarrow> raise Unmodelled)
                    else
                      (case map_of (path_items g) p of
                         None \<Rightarrow> raise KeyError
                       | Some current_val \<Rightarrow> merge_views n current_val v tm)) (\<lambda>v'.
               bnd (set_path n viewgroup (key_tuple p) v') (\<lambda>_.
                 ret viewgroup))))))"


subsection \<open>Collector\<close>

text \<open>
  Modelled from the spec: the two calls on the clock. \<^verbatim>\<open>time_hook(delta)\<close> advances
  the current time, \<^verbatim>\<open>time_fn()\<close> returns it.
\<close>

definition time_hook :: "time \<Rightarrow> state \<Rightarrow> unit res" where
  "time_hook d s =
     (Inr (), s\<lparr>clk := \<lparr>now = now (clk s) + d, trace = trace (clk s) @ [Advance d]\<rparr>\<rparr>)"

definition time_fn :: "state \<Rightarrow> time res" where
  "time_fn s = (Inr (now (clk s)), s\<lparr>clk := (clk s)\<lparr>trace := trace (clk s) @ [Sample]\<rparr>\<rparr>)"

text \<open>\<^verbatim>\<open>np.diff\<close> of a list.\<close>

fun diff :: "time list \<Rightarrow> time list" where
  "diff (x # y # zs) = (y - x) # diff (y # zs)"
| "diff _ = []"

text \<open>
  \<^verbatim>\<open>self._scheduled_tasks = ts\<close>: the assignment goes through
  \<^verbatim>\<open>ViewGroup.__setattr__\<close> with the label \<^verbatim>\<open>_scheduled_tasks\<close>, which is checked
  against the fixed flag like any label and, starting with an underscore, is neither
  appended to the children nor propagated.
\<close>

definition set_scheduled_tasks :: "addr \<Rightarrow> nat list \<Rightarrow> state \<Rightarrow> unit res" where
  "set_scheduled_tasks a ts =
     bnd (get_group a) (\<lambda>g.
     bnd (shallow g) (\<lambda>sh.
       if fixed g \<and> sh then raise FixedTreeError
       else put_group a (g\<lparr>scheduled_tasks := ts\<rparr>)))"

text \<open>\<^verbatim>\<open>self._scheduled_tasks.append(task)\<close>: the list is changed in place.\<close>

definition append_scheduled_task :: "addr \<Rightarrow> nat \<Rightarrow> state \<Rightarrow> unit res" where
  "append_scheduled_task a tid =
     bnd (get_group a) (\<lambda>g. put_group a (g\<lparr>scheduled_tasks := scheduled_tasks g @ [tid]\<rparr>))"

definition is_tuple :: "key \<Rightarrow> bool" where
  "is_tuple k = (case k of KTuple _ \<Rightarrow> True | KStr _ \<Rightarrow> False)"

text \<open>
  \<^verbatim>\<open>_schedule_tasks\<close>: the loop over the items of \<^verbatim>\<open>path_items\<close>. Exactly the tasks
  are instances of Aggregator or Analysis.
\<close>

fun schedule_loop :: "addr \<Rightarrow> (key \<times> val) list \<Rightarrow> state \<Rightarrow> unit res" where
  "schedule_loop c [] = ret ()"
| "schedule_loop c ((p, v) # rest) =
     (case v of
        VTask tid \<Rightarrow>
          bnd (get_task tid) (\<lambda>t.
            if is_tuple p \<and> mode t = MERGE then
              bnd (set_scheduled_tasks c []) (\<lambda>_. raise SchedulingError)
            else
              bnd (set_task_path tid p) (\<lambda>_.
              bnd (append_scheduled_task c tid) (\<lambda>_.
                schedule_loop c rest)))
      | _ \<Rightarrow> bnd (set_scheduled_tasks c []) (\<lambda>_. raise SchedulingError))"

definition schedule_tasks :: "addr \<Rightarrow> state \<Rightarrow> unit res" where
  "schedule_tasks c =
     bnd (set_scheduled_tasks c []) (\<lambda>_.
     bnd (get_group c) (\<lambda>g.
       schedule_loop c (path_items g)))"

definition is_stackwise_analysis :: "task \<Rightarrow> bool" where
  "is_stackwise_analysis t =
     (case t of Analysis _ _ sw _ _ \<Rightarrow> sw | Aggregator _ _ _ \<Rightarrow> False)"

text \<open>The loop over the scheduled tasks within one step.\<close>

fun run_tasks ::
  "leaf_ops \<Rightarrow> nat \<Rightarrow> addr \<Rightarrow> addr \<Rightarrow> time list \<Rightarrow> nat list \<Rightarrow> state \<Rightarrow> unit res" where
  "run_tasks ops n viewgroup viewgroup_buffer tms [] = ret ()"
| "run_tasks ops n viewgroup viewgroup_buffer tms (tid # rest) =
     bnd (get_task tid) (\<lambda>t.
     bnd (if is_stackwise_analysis t then
            bnd time_fn (\<lambda>tm.
            bnd (task_call ops n tid viewgroup tm tms) (\<lambda>_. ret ()))
          else
            bnd time_fn (\<lambda>tm.
            bnd (task_call ops n tid viewgroup_buffer tm tms) (\<lambda>_.
              update n viewgroup (VGroup viewgroup_buffer)))) (\<lambda>_.
       run_tasks ops n viewgroup viewgroup_buffer tms rest))"

text \<open>The loop over the time steps.\<close>

fun run_steps ::
  "leaf_ops \<Rightarrow> nat \<Rightarrow> addr \<Rightarrow> addr \<Rightarrow> time list \<Rightarrow> time list \<Rightarrow> state \<Rightarrow> unit res" where
  "run_steps ops n c viewgroup tms [] = ret ()"
| "run_steps ops n c viewgroup tms (t # ts) =
     bnd (time_hook t) (\<lambda>_.
     bnd (ViewGroup_init None None) (\<lambda>viewgroup_buffer.
     bnd (get_group c) (\<lambda>g.
     bnd (run_tasks ops n viewgroup viewgroup_buffer tms (scheduled_tasks g)) (\<lambda>_.
       run_steps ops n c viewgroup tms ts))))"

text \<open>
  \<^verbatim>\<open>Collector.__call__\<close>. Without the argument, \<^verbatim>\<open>viewgroup\<close> is the default object.
\<close>

definition Collector_call ::
  "leaf_ops \<Rightarrow> nat \<Rightarrow> addr \<Rightarrow> addr option \<Rightarrow> time list \<Rightarrow> state \<Rightarrow> addr res" where
  "Collector_call ops n c viewgroup_arg tms s =
     (let viewgroup = (case viewgroup_arg of None \<Rightarrow> default_viewgroup s | Some a \<Rightarrow> a) in
      bnd (setattr n c ''fixed'' (VBool False)) (\<lambda>_.
      bnd (setattr n viewgroup ''fixed'' (VBool False)) (\<lambda>_.
      bnd (schedule_tasks c) (\<lambda>_.
      bnd (run_steps ops n c viewgroup tms (diff (0 # tms))) (\<lambda>_.
      bnd (setattr n c ''fixed'' (VBool True)) (\<lambda>_.
      bnd (setattr n viewgroup ''fixed'' (VBool True)) (\<lambda>_.
        ret viewgroup)))))) s)"

section \<open>Concrete states\<close>

text \<open>
  Leaf operators for the concrete runs: no leaf contains a label or can be indexed,
  and the overlay of two values is the Overlay that lists them.
\<close>

definition ops0 :: leaf_ops where
  "ops0 = \<lparr>leaf_contains = (\<lambda>h v l. Inl TypeError),
           leaf_getitem = (\<lambda>h v i. Inl TypeError),
           leaf_mul = (\<lambda>h a b. Inr (VOverlay [a, b]))\<rparr>"

definition view_x :: view where
  "view_x = \<lparr>data = ''x'', title = ''{label}''\<rparr>"

text \<open>
  A Collector at address 0 whose template holds a task under \<^verbatim>\<open>('a',)\<close> and a View
  under \<^verbatim>\<open>('b',)\<close>, with the task 7 left scheduled by an earlier compilation; an empty
  ViewGroup at address 1.
\<close>

definition st_bad_entry :: state where
  "st_bad_entry =
     \<lparr>heap = [0 \<mapsto> OGroup ((new_viewgroup None None)
                  \<lparr>children := [''a'', ''b''],
                   path_items := [(KTuple [''a''], VTask 0), (KTuple [''b''], VView view_x)],
                   attrs := [(''a'', VTask 0), (''b'', VView view_x)],
                   scheduled_tasks := [7]\<rparr>),
               1 \<mapsto> OGroup (new_viewgroup None None)],
      nxt = 2,
      tasks = [0 \<mapsto> Aggregator (\<lambda>_. RLeaf (LView view_x)) SET None],
      clk = \<lparr>now = 0, trace = []\<rparr>,
      default_viewgroup = 1\<rparr>"

section \<open>Entries of the template that cannot be scheduled\<close>

text \<open>
  An entry of \<^verbatim>\<open>path_items\<close> that \<^verbatim>\<open>_schedule_tasks\<close> rejects: a value that is not a
  task, or a task in merge mode under a tuple key.
\<close>

definition not_schedulable :: "state \<Rightarrow> key \<times> val \<Rightarrow> bool" where
  "not_schedulable s e =
     (case snd e of
        VTask tid \<Rightarrow>
          (case tasks s tid of
             Some t \<Rightarrow> is_tuple (fst e) \<and> mode t = MERGE
           | None \<Rightarrow> False)
      | _ \<Rightarrow> True)"

text \<open>Every task the entries name is in the task table.\<close>

definition tasks_known :: "state \<Rightarrow> (key \<times> val) list \<Rightarrow> bool" where
  "tasks_known s items =
     list_all (\<lambda>e. case snd e of VTask tid \<Rightarrow> tasks s tid \<noteq> None | _ \<Rightarrow> True) items"

text \<open>The value of the \<^verbatim>\<open>viewgroup\<close> parameter of \<^verbatim>\<open>Collector.__call__\<close>.\<close>

definition viewgroup_param :: "state \<Rightarrow> addr option \<Rightarrow> addr" where
  "viewgroup_param s viewgroup_arg =
     (case viewgroup_arg of None \<Rightarrow> default_viewgroup s | Some a \<Rightarrow> a)"

text \<open>
  The outcome of a compilation that aborts: the SchedulingError, the clock and the
  next address as before, every object but the Collector as before, and the
  Collector as before but for its list of scheduled tasks.
\<close>

definition aborted :: "addr \<Rightarrow> viewgroup \<Rightarrow> state \<Rightarrow> unit res \<Rightarrow> bool" where
  "aborted c g s r \<longleftrightarrow>
     fst r = Inl SchedulingError
     \<and> clk (snd r) = clk s \<and> nxt (snd r) = nxt s
     \<and> (\<forall>a. a \<noteq> c \<longrightarrow> heap (snd r) a = heap s a)
     \<and> (\<exists>g'. heap (snd r) c = Some (OGroup g')
           \<and> parent g' = parent g \<and> children g' = children g
           \<and> path_items g' = path_items g \<and> fixed g' = fixed g \<and> attrs g' = attrs g)"



section \<open>Handles and trees for the references\<close>




definition view_xyz :: view where
  "view_xyz = \<lparr>data = ''xyz'', title = ''t''\<rparr>"

text \<open>
  A stackwise Analysis of the leaf \<^verbatim>\<open>a.b\<close>, scheduled under the path \<^verbatim>\<open>('r',)\<close>;
  its operation returns a View whatever it is given.
\<close>

definition stackwise_task :: task where
  "stackwise_task =
     Analysis \<lparr>specification_list = [[''a'', ''b'']], slices = []\<rparr>
       (\<lambda>h v. RLeaf (LView view_x)) True SET (Some (KTuple [''r'']))"

text \<open>A tree (root at address 0) with the leaves \<^verbatim>\<open>a.b\<close> and \<^verbatim>\<open>a.c\<close>.\<close>

definition st_tree :: state where
  "st_tree =
     \<lparr>heap = [0 \<mapsto> OGroup ((new_viewgroup None None)
                  \<lparr>children := [''a''],
                   path_items := [(KTuple [''a'', ''b''], VView view_xyz),
                                  (KTuple [''a'', ''c''], VView view_x)],
                   attrs := [(''a'', VGroup 1)]\<rparr>),
               1 \<mapsto> OGroup ((new_viewgroup (Some ''a'') (Some 0))
                  \<lparr>children := [''b'', ''c''],
                   attrs := [(''b'', VView view_xyz), (''c'', VView view_x)]\<rparr>)],
      nxt = 2,
      tasks = [0 \<mapsto> stackwise_task],
      clk = \<lparr>now = 0, trace = []\<rparr>,
      default_viewgroup = 0\<rparr>"




definition ref_missing :: viewref where
  "ref_missing = \<lparr>specification_list = [[''a'', ''b''], [''a'', ''z'', ''q'']], slices = []\<rparr>"

section \<open>What the operations on the store preserve\<close>

text \<open>
  A ViewGroup grows: its list of scheduled tasks stays, and it keeps every key of its
  \<^verbatim>\<open>path_items\<close> and every child label. A store grows when each of its ViewGroups
  does. The operations at run time (all but the compilation and the clock) satisfy
  \<open>frame\<close>: the store grows, and the task table, the clock and the default tree are
  left as they are.
\<close>

definition group_grows :: "viewgroup \<Rightarrow> viewgroup \<Rightarrow> bool" where
  "group_grows g g' \<longleftrightarrow>
     scheduled_tasks g' = scheduled_tasks g
     \<and> set (dict_keys (path_items g)) \<subseteq> set (dict_keys (path_items g'))
     \<and> set (children g) \<subseteq> set (children g')"

definition heap_grows :: "heap \<Rightarrow> heap \<Rightarrow> bool" where
  "heap_grows h h' \<longleftrightarrow>
     (\<forall>a g. h a = Some (OGroup g) \<longrightarrow> (\<exists>g'. h' a = Some (OGroup g') \<and> group_grows g g'))"

definition frame :: "state \<Rightarrow> state \<Rightarrow> bool" where
  "frame s s' \<longleftrightarrow>
     heap_grows (heap s) (heap s') \<and> tasks s' = tasks s \<and> clk s' = clk s
     \<and> default_viewgroup s' = default_viewgroup s"

text \<open>
  The steps of a run satisfy \<open>frame\<close> but for the clock. A whole run, compilation
  included, resets the scheduled tasks and sets the paths of the tasks; what it
  keeps is that every ViewGroup of the store extends: it keeps its keys and its
  child labels.
\<close>

definition frame_but_clock :: "state \<Rightarrow> state \<Rightarrow> bool" where
  "frame_but_clock s s' \<longleftrightarrow>
     heap_grows (heap s) (heap s') \<and> tasks s' = tasks s
     \<and> default_viewgroup s' = default_viewgroup s"

definition group_extends :: "viewgroup \<Rightarrow> viewgroup \<Rightarrow> bool" where
  "group_extends g g' \<longleftrightarrow>
     set (dict_keys (path_items g)) \<subseteq> set (dict_keys (path_items g'))
     \<and> set (children g) \<subseteq> set (children g')"

definition extends :: "state \<Rightarrow> state \<Rightarrow> bool" where
  "extends s s' \<longleftrightarrow>
     (\<forall>a g. heap s a = Some (OGroup g) \<longrightarrow>
        (\<exists>g'. heap s' a = Some (OGroup g') \<and> group_extends g g'))
     \<and> default_viewgroup s' = default_viewgroup s"

text \<open>
  What the clock has recorded after steps with the given deltas, each with \<open>k\<close>
  readings of the time.
\<close>

definition step_events :: "nat \<Rightarrow> time list \<Rightarrow> clock_event list" where
  "step_events k deltas = concat (map (\<lambda>d. Advance d # replicate k Sample) deltas)"

text \<open>
  A Collector at address 0 with two tasks in its template, under \<^verbatim>\<open>('a',)\<close> and
  \<^verbatim>\<open>('b',)\<close>, whose hooks return nothing; an empty ViewGroup at address 1. And the same
  with the first task only.
\<close>

definition st_two_tasks :: state where
  "st_two_tasks =
     \<lparr>heap = [0 \<mapsto> OGroup ((new_viewgroup None None)
                  \<lparr>children := [''a'', ''b''],
                   path_items := [(KTuple [''a''], VTask 0), (KTuple [''b''], VTask 1)],
                   attrs := [(''a'', VTask 0), (''b'', VTask 1)]\<rparr>),
               1 \<mapsto> OGroup (new_viewgroup None None)],
      nxt = 2,
      tasks = [0 \<mapsto> Aggregator (\<lambda>_. RNone) SET None,
               1 \<mapsto> Aggregator (\<lambda>_. RNone) SET None],
      clk = \<lparr>now = 0, trace = []\<rparr>,
      default_viewgroup = 1\<rparr>"

definition st_one_task :: state where
  "st_one_task =
     \<lparr>heap = [0 \<mapsto> OGroup ((new_viewgroup None None)
                  \<lparr>children := [''a''],
                   path_items := [(KTuple [''a''], VTask 0)],
                   attrs := [(''a'', VTask 0)]\<rparr>),
               1 \<mapsto> OGroup (new_viewgroup None None)],
      nxt = 2,
      tasks = [0 \<mapsto> Aggregator (\<lambda>_. RNone) SET None],
      clk = \<lparr>now = 0, trace = []\<rparr>,
      default_viewgroup = 1\<rparr>"

section \<open>Outcomes of the basic operations\<close>

lemma bndE:
  assumes "bnd m f s = (r, s')"
  obtains (err) e where "m s = (Inl e, s')" "r = Inl e"
        | (ok) x s1 where "m s = (Inr x, s1)" "f x s1 = (r, s')"
  using assms by (auto simp: bnd_def split: prod.splits sum.splits)

lemma get_group_cases:
  assumes "get_group a s = (r, s')"
  obtains (err) "r = Inl Unmodelled" "s' = s"
        | (ok) g where "r = Inr g" "s' = s" "heap s a = Some (OGroup g)"
  using assms by (auto simp: get_group_def split: option.splits obj.splits)

lemma get_task_cases:
  assumes "get_task tid s = (r, s')"
  obtains (err) "r = Inl Unmodelled" "s' = s"
        | (ok) t where "r = Inr t" "s' = s" "tasks s tid = Some t"
  using assms by (auto simp: get_task_def split: option.splits)

lemma set_scheduled_tasks_cases:
  assumes "set_scheduled_tasks c ts s = (r, s')"
  obtains (ok) g where "r = Inr ()" "heap s c = Some (OGroup g)"
                 "s' = s\<lparr>heap := (heap s)(c \<mapsto> OGroup (g\<lparr>scheduled_tasks := ts\<rparr>))\<rparr>"
        | (err) "r = Inl FixedTreeError \<or> r = Inl Unmodelled" "s' = s"
  using assms
  by (auto simp: set_scheduled_tasks_def bnd_def get_group_def put_group_def shallow_def
        ret_def raise_def
      split: option.splits obj.splits if_splits sum.splits prod.splits)

lemma set_task_path_cases:
  assumes "set_task_path tid p s = (r, s')"
  obtains (err) "r = Inl Unmodelled" "s' = s"
        | (ok) t where "r = Inr ()" "tasks s tid = Some t"
             "s' = s\<lparr>tasks := (tasks s)(tid \<mapsto>
                (case t of Aggregator h m _ \<Rightarrow> Aggregator h m (Some p)
                 | Analysis r an sw m _ \<Rightarrow> Analysis r an sw m (Some p)))\<rparr>"
  using assms by (auto simp: set_task_path_def bnd_def get_task_def split: option.splits)

lemma append_scheduled_task_cases:
  assumes "append_scheduled_task c tid s = (r, s')"
  obtains (err) "r = Inl Unmodelled" "s' = s"
        | (ok) g where "r = Inr ()" "heap s c = Some (OGroup g)"
             "s' = s\<lparr>heap := (heap s)(c \<mapsto>
                       OGroup (g\<lparr>scheduled_tasks := scheduled_tasks g @ [tid]\<rparr>))\<rparr>"
  using assms
  by (auto simp: append_scheduled_task_def bnd_def get_group_def put_group_def
      split: option.splits obj.splits)

lemmas run_defs =
  bnd_def ret_def raise_def get_group_def put_group_def get_stack_def put_stack_def
  alloc_def new_viewgroup_def ViewGroup_init_def startswith_underscore_def
  own_attribute_def contains_def dict_keys_def getitem_def shallow_def setattr_def
  setitem_def getattr_def stack_setitem_def stack_update_def get_task_def
  set_task_path_def key_tuple_def materialise_leaf_def materialise_def get_result_def
  merge_views_def task_call_def time_hook_def time_fn_def set_scheduled_tasks_def
  append_scheduled_task_def is_tuple_def schedule_tasks_def is_stackwise_analysis_def
  Collector_call_def val_contains_def val_getitem_def resolve_ref_def resolve_def

section \<open>Compilation of the template\<close>

lemma reset_then_raise:
  assumes "bnd (set_scheduled_tasks c []) (\<lambda>_. raise SchedulingError) s
             = (Inl SchedulingError, s')"
  shows "\<exists>g. heap s' c = Some (OGroup g) \<and> scheduled_tasks g = []"
  using assms
  by (elim bndE set_scheduled_tasks_cases) (auto simp: raise_def)

lemma schedule_loop_reset:
  "schedule_loop c items s = (Inl SchedulingError, s') \<Longrightarrow>
     \<exists>g. heap s' c = Some (OGroup g) \<and> scheduled_tasks g = []"
proof (induction items arbitrary: s)
  case Nil
  then show ?case by (simp add: ret_def)
next
  case (Cons e items)
  obtain p v where e: "e = (p, v)" by (cases e)
  show ?case
  proof (cases v)
    case (VTask tid)
    from Cons.prems e VTask
    have "bnd (get_task tid) (\<lambda>t.
            if is_tuple p \<and> mode t = MERGE then
              bnd (set_scheduled_tasks c []) (\<lambda>_. raise SchedulingError)
            else
              bnd (set_task_path tid p) (\<lambda>_.
              bnd (append_scheduled_task c tid) (\<lambda>_.
                schedule_loop c items))) s = (Inl SchedulingError, s')"
      by simp
    then show ?thesis
    proof (cases rule: bndE)
      case (err e)
      then show ?thesis by (elim get_task_cases) auto
    next
      case (ok t s1)
      show ?thesis
      proof (cases "is_tuple p \<and> mode t = MERGE")
        case True
        with ok show ?thesis by (auto dest: reset_then_raise)
      next
        case False
        with ok have "bnd (set_task_path tid p) (\<lambda>_.
              bnd (append_scheduled_task c tid) (\<lambda>_.
                schedule_loop c items)) s1 = (Inl SchedulingError, s')" by auto
        then show ?thesis
          by (elim bndE set_task_path_cases append_scheduled_task_cases)
             (auto dest: Cons.IH)
      qed
    qed
  qed (use Cons.prems e in \<open>auto dest: reset_then_raise\<close>)
qed

lemma same_modes_not_schedulable:
  assumes "\<And>tid. map_option mode (tasks s' tid) = map_option mode (tasks s tid)"
  shows "not_schedulable s' e = not_schedulable s e"
proof (cases "snd e")
  case (VTask tid)
  from assms[of tid] show ?thesis
    by (cases "tasks s tid"; cases "tasks s' tid") (auto simp: not_schedulable_def VTask)
qed (auto simp: not_schedulable_def)

lemma same_modes_tasks_known:
  assumes "\<And>tid. map_option mode (tasks s' tid) = map_option mode (tasks s tid)"
  shows "tasks_known s' items = tasks_known s items"
proof -
  have "(tasks s' tid \<noteq> None) = (tasks s tid \<noteq> None)" for tid
    using assms[of tid] by (cases "tasks s tid"; cases "tasks s' tid") auto
  then show ?thesis by (induction items) (auto simp: tasks_known_def split: val.splits)
qed

lemma bnd_Inr: "m s = (Inr x, s1) \<Longrightarrow> bnd m f s = f x s1"
  by (simp add: bnd_def)

lemma bnd_Inl: "fst (m s) = Inl e \<Longrightarrow> bnd m f s = (Inl e, snd (m s))"
  by (cases "m s") (simp add: bnd_def)

lemma same_tasks:
  assumes "tasks s' = tasks s"
  shows "tasks_known s' items = tasks_known s items"
    and "list_ex (not_schedulable s') items = list_ex (not_schedulable s) items"
proof -
  have m: "map_option mode (tasks s' tid) = map_option mode (tasks s tid)" for tid
    by (simp add: assms)
  show "tasks_known s' items = tasks_known s items"
    by (rule same_modes_tasks_known) (rule m)
  have "not_schedulable s' = not_schedulable s"
    by (rule ext) (rule same_modes_not_schedulable, rule m)
  then show "list_ex (not_schedulable s') items = list_ex (not_schedulable s) items"
    by simp
qed

lemma schedule_loop_aborts:
  assumes "heap s c = Some (OGroup g)" "\<not> fixed g" "parent g = None"
    and "tasks_known s items" "list_ex (not_schedulable s) items"
  shows "aborted c g s (schedule_loop c items s)"
  using assms
proof (induction items arbitrary: s g)
  case Nil
  then show ?case by simp
next
  case (Cons e items)
  obtain p v where e: "e = (p, v)" by (cases e)
  have reset: "aborted c g s (bnd (set_scheduled_tasks c []) (\<lambda>_. raise SchedulingError) s)"
    using Cons.prems(1-3) by (simp add: aborted_def run_defs)
  show ?case
  proof (cases v)
    case (VTask tid)
    with Cons.prems(4) e obtain t where t: "tasks s tid = Some t"
      by (auto simp: tasks_known_def)
    show ?thesis
    proof (cases "is_tuple p \<and> mode t = MERGE")
      case True
      with e VTask t reset show ?thesis by (simp add: bnd_def[of "get_task tid"] get_task_def)
    next
      case False
      define t' where "t' = (case t of Aggregator h m _ \<Rightarrow> Aggregator h m (Some p)
                 | Analysis r an sw m _ \<Rightarrow> Analysis r an sw m (Some p))"
      define s1 where "s1 = s\<lparr>tasks := (tasks s)(tid \<mapsto> t'),
                              heap := (heap s)(c \<mapsto> OGroup (g\<lparr>scheduled_tasks := scheduled_tasks g @ [tid]\<rparr>))\<rparr>"
      have step: "schedule_loop c (e # items) s = schedule_loop c items s1"
        using False e VTask t Cons.prems(1)
        by (auto simp: bnd_def get_task_def set_task_path_def append_scheduled_task_def
              get_group_def put_group_def s1_def t'_def)
      have modes: "map_option mode (tasks s1 k) = map_option mode (tasks s k)" for k
        using t by (cases t) (auto simp: s1_def t'_def)
      have ns: "\<not> not_schedulable s e"
        using False e VTask t by (simp add: not_schedulable_def)
      have 1: "tasks_known s1 items"
        using Cons.prems(4) same_modes_tasks_known[of s1 s, OF modes] by (simp add: tasks_known_def)
      have 2: "list_ex (not_schedulable s1) items"
        using Cons.prems(5) ns same_modes_not_schedulable[of s1 s, OF modes]
        by (auto simp: list_ex_iff)
      have 3: "heap s1 c = Some (OGroup (g\<lparr>scheduled_tasks := scheduled_tasks g @ [tid]\<rparr>))"
        by (simp add: s1_def)
      from Cons.IH[OF 3 _ _ 1 2] Cons.prems(2,3)
      have "aborted c (g\<lparr>scheduled_tasks := scheduled_tasks g @ [tid]\<rparr>) s1 (schedule_loop c items s1)"
        by simp
      then show ?thesis unfolding step by (auto simp: s1_def aborted_def)
    qed
  qed (use e reset in \<open>auto\<close>)
qed


lemma setattr_fixed_root:
  assumes "heap s a = Some (OGroup g)" "parent g = None"
  shows "setattr n a ''fixed'' (VBool b) s
           = (Inr (), s\<lparr>heap := (heap s)(a \<mapsto> OGroup (g\<lparr>fixed := b\<rparr>))\<rparr>)"
  using assms by (simp add: setattr_def bnd_def get_group_def shallow_def ret_def put_group_def)

lemma schedule_tasks_aborts:
  assumes "heap s c = Some (OGroup g)" "\<not> fixed g" "parent g = None"
    and "tasks_known s (path_items g)" "list_ex (not_schedulable s) (path_items g)"
  shows "aborted c g s (schedule_tasks c s)"
proof -
  define s1 where "s1 = s\<lparr>heap := (heap s)(c \<mapsto> OGroup (g\<lparr>scheduled_tasks := []\<rparr>))\<rparr>"
  have step: "schedule_tasks c s = schedule_loop c (path_items g) s1"
    using assms(1-3) by (simp add: schedule_tasks_def set_scheduled_tasks_def bnd_def
        get_group_def shallow_def ret_def put_group_def s1_def)
  have tk: "tasks_known s1 (path_items g)" "list_ex (not_schedulable s1) (path_items g)"
    using assms(4,5) same_tasks[of s1 s "path_items g"] by (simp_all add: s1_def)
  have "aborted c (g\<lparr>scheduled_tasks := []\<rparr>) s1 (schedule_loop c (path_items g) s1)"
    by (rule schedule_loop_aborts) (use assms(2,3) tk in \<open>simp_all add: s1_def\<close>)
  then show ?thesis unfolding step by (auto simp: aborted_def s1_def)
qed

section \<open>Fixed trees\<close>


section \<open>Resolution of references\<close>

lemma resolve_walk_append:
  "resolve_walk ops s ref ob (xs @ ys) =
     (case resolve_walk ops s ref ob xs of
        Inl e \<Rightarrow> Inl e
      | Inr g \<Rightarrow> resolve_walk ops s ref g ys)"
  by (induction xs arbitrary: ob) (auto split: sum.splits bool.splits)

lemma resolve_loop_append:
  "resolve_loop ops s sl vg acc (xs @ ys) =
     (case resolve_loop ops s sl vg acc xs of
        Inl e \<Rightarrow> Inl e
      | Inr acc' \<Rightarrow> resolve_loop ops s sl vg acc' ys)"
  by (induction xs arbitrary: acc) (auto split: sum.splits)



lemma sorted_last_Max: "sorted (xs::int list) \<Longrightarrow> xs \<noteq> [] \<Longrightarrow> last xs = Max (set xs)"
proof (induction xs)
  case Nil
  then show ?case by simp
next
  case (Cons x xs)
  show ?case
  proof (cases xs)
    case Nil
    then show ?thesis by simp
  next
    case (Cons y ys)
    with Cons.prems Cons.IH have "last xs = Max (set xs)" "\<forall>z\<in>set xs. x \<le> z" by auto
    moreover have "Max (set xs) \<in> set xs" using Cons by (intro Max_in) auto
    ultimately show ?thesis using Cons by (auto simp: max_def)
  qed
qed

section \<open>The frame of the operations\<close>

lemma group_grows_refl [simp]: "group_grows g g"
  by (simp add: group_grows_def)

lemma group_grows_trans: "group_grows g g' \<Longrightarrow> group_grows g' g'' \<Longrightarrow> group_grows g g''"
  by (auto simp: group_grows_def)

lemma heap_grows_refl [simp]: "heap_grows h h"
  by (auto simp: heap_grows_def)

lemma heap_grows_trans: "heap_grows h h' \<Longrightarrow> heap_grows h' h'' \<Longrightarrow> heap_grows h h''"
  unfolding heap_grows_def by (meson group_grows_trans)

lemma frame_refl [simp]: "frame s s"
  by (simp add: frame_def)

lemma frame_trans: "frame s s' \<Longrightarrow> frame s' s'' \<Longrightarrow> frame s s''"
  by (auto simp: frame_def intro: heap_grows_trans)

lemma dict_keys_dict_set: "set (dict_keys (dict_set d k v)) = insert k (set (dict_keys d))"
  by (induction d) (force simp: dict_keys_def)+

lemma dict_keys_dict_update:
  "set (dict_keys (dict_update d other)) = set (dict_keys d) \<union> set (dict_keys other)"
proof (induction d other rule: dict_update.induct)
  case (1 d)
  then show ?case by (simp add: dict_keys_def)
next
  case (2 d k v other)
  then show ?case by (simp add: dict_keys_dict_set) (simp add: dict_keys_def)
qed

lemma frame_put_group:
  assumes "heap s a = Some (OGroup g)" "group_grows g g'"
  shows "frame s (s\<lparr>heap := (heap s)(a \<mapsto> OGroup g')\<rparr>)"
  using assms by (auto simp: frame_def heap_grows_def)

lemma frame_put_stack:
  assumes "heap s a = Some (OStack k)"
  shows "frame s (s\<lparr>heap := (heap s)(a \<mapsto> OStack k')\<rparr>)"
  using assms by (auto simp: frame_def heap_grows_def)

lemma frame_alloc:
  assumes "alloc ob s = (r, s')"
  shows "frame s s'"
  using assms by (auto simp: alloc_def frame_def heap_grows_def split: option.splits)

lemma frame_bnd:
  assumes "bnd m f s = (r, s')"
    and "\<And>e s1. m s = (e, s1) \<Longrightarrow> frame s s1"
    and "\<And>x s1. m s = (Inr x, s1) \<Longrightarrow> f x s1 = (r, s') \<Longrightarrow> frame s1 s'"
  shows "frame s s'"
  using assms by (elim bndE) (auto intro: frame_trans)

lemma frame_propagate:
  "propagate n a p v s = (r, s') \<Longrightarrow> frame s s'"
proof (induction n arbitrary: a p s)
  case 0
  then show ?case by (simp add: raise_def)
next
  case (Suc n)
  from Suc.prems show ?case
    by (auto simp: bnd_def get_group_def put_group_def raise_def group_grows_def
          dict_keys_dict_set
        split: option.splits obj.splits intro: frame_put_group dest: Suc.IH)
qed

lemma shallow_state: "shallow g s = (r, s') \<Longrightarrow> s' = s"
  by (auto simp: shallow_def ret_def bnd_def get_group_def split: option.splits obj.splits)

lemma frame_setattr:
  assumes "setattr n a l v s = (r, s')"
  shows "frame s s'"
proof (cases "heap s a")
  case None
  with assms show ?thesis by (simp add: setattr_def bnd_def get_group_def)
next
  case (Some ob)
  show ?thesis
  proof (cases ob)
    case (OStack k)
    with Some assms show ?thesis by (simp add: setattr_def bnd_def get_group_def)
  next
    case (OGroup g)
    obtain sh s1 where sh: "shallow g s = (sh, s1)" by (cases "shallow g s")
    then have s1: "s1 = s" by (rule shallow_state)
    show ?thesis
    proof (cases sh)
      case (Inl e)
      with Some OGroup assms sh s1 show ?thesis
        by (simp add: setattr_def bnd_def get_group_def)
    next
      case (Inr b)
      have p1: "frame s (s\<lparr>heap := (heap s)(a \<mapsto> OGroup g')\<rparr>)" if "group_grows g g'" for g'
        using Some OGroup that by (intro frame_put_group) auto
      have p2: "frame (s\<lparr>heap := (heap s)(a \<mapsto> OGroup g1)\<rparr>)
                  (s\<lparr>heap := (heap s)(a \<mapsto> OGroup g2)\<rparr>)" if "group_grows g1 g2" for g1 g2
        using frame_put_group[of "s\<lparr>heap := (heap s)(a \<mapsto> OGroup g1)\<rparr>" a g1 g2] that by simp
      have p3: "frame s s'"
        if "propagate n a p v (s\<lparr>heap := (heap s)(a \<mapsto> OGroup g')\<rparr>) = (r, s')"
          "group_grows g g'" for g' p
        using frame_trans[OF p1[OF that(2)] frame_propagate[OF that(1)]] .
      from assms Some OGroup sh s1 Inr show ?thesis
        by (auto simp: setattr_def bnd_def get_group_def put_group_def raise_def ret_def
              group_grows_def
            split: if_splits val.splits prod.splits sum.splits
            intro!: p1 elim!: p3)
    qed
  qed
qed


lemma frame_getitem: "getitem a l s = (r, s') \<Longrightarrow> s' = s"
  by (auto simp: getitem_def bnd_def get_group_def raise_def ret_def
      split: option.splits obj.splits if_splits)

lemma frame_getattr:
  assumes "getattr a l s = (r, s')"
  shows "frame s s'"
  using assms
  by (auto simp: getattr_def bnd_def get_group_def put_group_def raise_def ret_def
        ViewGroup_init_def alloc_def frame_def heap_grows_def group_grows_def
      split: option.splits obj.splits if_splits)

lemma frame_set_path:
  "set_path n a p v s = (r, s') \<Longrightarrow> frame s s'"
proof (induction p arbitrary: a s)
  case Nil
  then show ?case by (simp add: raise_def)
next
  case (Cons l p)
  show ?case
  proof (cases p)
    case Nil
    with Cons.prems show ?thesis by (simp add: frame_setattr)
  next
    case p: (Cons l' p')
    with Cons.prems
    have "bnd (getattr a l) (\<lambda>c. case c of VGroup ca \<Rightarrow> set_path n ca (l' # p') v
                                  | _ \<Rightarrow> raise (AttributeError ''set_path'')) s = (r, s')"
      by simp
    then show ?thesis
    proof (cases rule: bndE)
      case (err e)
      then show ?thesis by (simp add: frame_getattr)
    next
      case (ok x s1)
      then have "frame s s1" by (simp add: frame_getattr)
      moreover have "frame s1 s'"
        using ok(2) Cons.IH p by (cases x) (auto simp: raise_def)
      ultimately show ?thesis by (rule frame_trans)
    qed
  qed
qed

lemma frame_stack_setitem: "stack_setitem a t v s = (r, s') \<Longrightarrow> frame s s'"
  by (auto simp: stack_setitem_def bnd_def get_stack_def put_stack_def
      split: option.splits obj.splits intro: frame_put_stack)

lemma frame_stack_update: "stack_update a b s = (r, s') \<Longrightarrow> frame s s'"
  by (auto simp: stack_update_def bnd_def get_stack_def put_stack_def
      split: option.splits obj.splits intro: frame_put_stack)


lemma frame_update_both:
  "(update n self other s = (r, s') \<longrightarrow> frame s s')
   \<and> (update_children n self other i s = (r, s') \<longrightarrow> frame s s')"
proof (induction n arbitrary: self other i s r s')
  case 0
  then show ?case by (simp add: raise_def)
next
  case (Suc n)
  have IHu: "frame s s'" if "update n self other s = (r, s')" for self other s r s'
    using Suc[of self other s r s'] that by simp
  have IHc: "frame s s'" if "update_children n self other i s = (r, s')" for self other i s r s'
    using Suc[of self other s r s' i] that by simp
  have put: "frame s (s\<lparr>heap := (heap s)(a \<mapsto> OGroup (g\<lparr>path_items := dict_update (path_items g) d\<rparr>))\<rparr>)"
    if "heap s a = Some (OGroup g)" for s a g d
    using that by (intro frame_put_group) (auto simp: group_grows_def dict_keys_dict_update)
  have u: "frame s s'" if "update (Suc n) self other s = (r, s')"
    using that
    by (auto simp: bnd_def get_group_def put_group_def raise_def ret_def
          split: prod.splits sum.splits if_splits val.splits option.splits obj.splits
          dest!: IHc intro: frame_trans[OF put])
  have c: "frame s s'" if "update_children (Suc n) self other i s = (r, s')"
    using that
    by (auto simp: bnd_def get_group_def raise_def ret_def setitem_def
          split: prod.splits sum.splits if_splits val.splits option.splits obj.splits
          dest!: frame_getitem frame_setattr IHu IHc frame_stack_update
          intro: frame_trans)
  from u c show ?case by blast
qed

lemma frame_update: "update n self other s = (r, s') \<Longrightarrow> frame s s'"
  using frame_update_both by blast


lemma frame_materialise_leaf: "materialise_leaf lf s = (r, s') \<Longrightarrow> frame s s'"
  by (auto simp: materialise_leaf_def ret_def bnd_def
      split: hookleaf.splits prod.splits sum.splits dest: frame_alloc)

lemma frame_assign_leaves: "assign_leaves n a asg s = (r, s') \<Longrightarrow> frame s s'"
proof (induction asg arbitrary: s)
  case Nil
  then show ?case by (simp add: ret_def)
next
  case (Cons e asg)
  obtain p lf where e: "e = (p, lf)" by (cases e)
  from Cons.prems show ?case unfolding e
    by (auto simp: bnd_def split: prod.splits sum.splits
        dest!: frame_materialise_leaf frame_set_path Cons.IH intro: frame_trans)
qed

lemma frame_materialise: "materialise n hr s = (r, s') \<Longrightarrow> frame s s'"
  by (auto simp: materialise_def ret_def bnd_def ViewGroup_init_def
      split: hookres.splits prod.splits sum.splits
      dest!: frame_alloc frame_materialise_leaf frame_assign_leaves intro: frame_trans)

lemma frame_merge_views: "merge_views n cur v tm s = (r, s') \<Longrightarrow> frame s s'"
  by (auto simp: merge_views_def ret_def raise_def bnd_def get_stack_def
      split: val.splits prod.splits sum.splits if_splits option.splits obj.splits
      dest!: frame_stack_setitem frame_stack_update frame_update intro: frame_trans)

lemma frame_task_call: "task_call ops n tid vg tm tms s = (r, s') \<Longrightarrow> frame s s'"
  by (auto simp: task_call_def ret_def raise_def bnd_def get_task_def get_group_def
      split: val.splits prod.splits sum.splits if_splits option.splits obj.splits
      dest!: frame_materialise frame_update frame_alloc frame_merge_views frame_set_path
      intro: frame_trans)

section \<open>The trace of the clock\<close>

lemma frame_imp_but_clock: "frame s s' \<Longrightarrow> frame_but_clock s s'"
  by (simp add: frame_def frame_but_clock_def)

lemma frame_but_clock_refl [simp]: "frame_but_clock s s"
  by (simp add: frame_but_clock_def)

lemma frame_but_clock_trans:
  "frame_but_clock s s' \<Longrightarrow> frame_but_clock s' s'' \<Longrightarrow> frame_but_clock s s''"
  by (auto simp: frame_but_clock_def intro: heap_grows_trans)

lemma time_fn_cases:
  assumes "time_fn s = (r, s')"
  obtains "r = Inr (now (clk s))" "s' = s\<lparr>clk := (clk s)\<lparr>trace := trace (clk s) @ [Sample]\<rparr>\<rparr>"
  using assms by (auto simp: time_fn_def)

lemma frame_after_sample:
  assumes "frame (s\<lparr>clk := (clk s)\<lparr>trace := trace (clk s) @ [Sample]\<rparr>\<rparr>) s'"
  shows "frame_but_clock s s' \<and> trace (clk s') = trace (clk s) @ [Sample]"
  using assms by (simp add: frame_def frame_but_clock_def)

lemma task_step_trace:
  assumes "(if sw then
              bnd time_fn (\<lambda>tm. bnd (task_call ops n tid vg tm tms) (\<lambda>_. ret ()))
            else
              bnd time_fn (\<lambda>tm. bnd (task_call ops n tid buf tm tms) (\<lambda>_.
                update n vg (VGroup buf)))) s = (r, s')"
  shows "frame_but_clock s s' \<and> trace (clk s') = trace (clk s) @ [Sample]"
proof -
  define s1 where "s1 = s\<lparr>clk := (clk s)\<lparr>trace := trace (clk s) @ [Sample]\<rparr>\<rparr>"
  have "frame s1 s'"
    using assms unfolding s1_def
    by (auto simp: bnd_def time_fn_def ret_def
        split: prod.splits sum.splits if_splits
        dest!: frame_task_call frame_update intro: frame_trans)
  then show ?thesis unfolding s1_def by (rule frame_after_sample)
qed

lemma run_tasks_trace:
  "run_tasks ops n vg buf tms ts s = (r, s') \<Longrightarrow>
     frame_but_clock s s'
     \<and> (r = Inr () \<longrightarrow> trace (clk s') = trace (clk s) @ replicate (length ts) Sample)"
proof (induction ts arbitrary: s)
  case Nil
  then show ?case by (simp add: ret_def)
next
  case (Cons tid ts)
  show ?case
  proof (cases "tasks s tid")
    case None
    with Cons.prems show ?thesis by (auto simp: bnd_def get_task_def)
  next
    case (Some t)
    with Cons.prems
    have "bnd (if is_stackwise_analysis t then
            bnd time_fn (\<lambda>tm.
            bnd (task_call ops n tid vg tm tms) (\<lambda>_. ret ()))
          else
            bnd time_fn (\<lambda>tm.
            bnd (task_call ops n tid buf tm tms) (\<lambda>_.
              update n vg (VGroup buf)))) (\<lambda>_.
       run_tasks ops n vg buf tms ts) s = (r, s')"
      by (simp add: bnd_def[of "get_task tid"] get_task_def)
    then show ?thesis
    proof (cases rule: bndE)
      case (err e)
      from task_step_trace[OF err(1)] err(2) show ?thesis by simp
    next
      case (ok x s2)
      from task_step_trace[OF ok(1)]
      have a: "frame_but_clock s s2" "trace (clk s2) = trace (clk s) @ [Sample]" by auto
      from Cons.IH[OF ok(2)] have b: "frame_but_clock s2 s'"
        "r = Inr () \<longrightarrow> trace (clk s') = trace (clk s2) @ replicate (length ts) Sample"
        by auto
      from a b show ?thesis
        by (auto intro: frame_but_clock_trans simp: replicate_append_same[symmetric])
    qed
  qed
qed

lemma time_hook_cases:
  assumes "time_hook d s = (r, s')"
  obtains "r = Inr ()"
    "s' = s\<lparr>clk := \<lparr>now = now (clk s) + d, trace = trace (clk s) @ [Advance d]\<rparr>\<rparr>"
  using assms by (auto simp: time_hook_def)

lemma heap_grows_scheduled:
  "heap_grows h h' \<Longrightarrow> h c = Some (OGroup g) \<Longrightarrow>
     \<exists>g'. h' c = Some (OGroup g') \<and> scheduled_tasks g' = scheduled_tasks g"
  unfolding heap_grows_def group_grows_def by blast

lemma run_steps_trace:
  "run_steps ops n c vg tms ds s = (r, s') \<Longrightarrow>
     frame_but_clock s s'
     \<and> (\<forall>g. heap s c = Some (OGroup g) \<longrightarrow> r = Inr () \<longrightarrow>
           trace (clk s') = trace (clk s) @ step_events (length (scheduled_tasks g)) ds)"
proof (induction ds arbitrary: s)
  case Nil
  then show ?case by (simp add: ret_def step_events_def)
next
  case (Cons d ds)
  define s1 where "s1 = s\<lparr>clk := \<lparr>now = now (clk s) + d, trace = trace (clk s) @ [Advance d]\<rparr>\<rparr>"
  have f1: "frame_but_clock s s1" by (simp add: s1_def frame_but_clock_def)
  from Cons.prems have *: "bnd (ViewGroup_init None None) (\<lambda>viewgroup_buffer.
     bnd (get_group c) (\<lambda>g.
     bnd (run_tasks ops n vg viewgroup_buffer tms (scheduled_tasks g)) (\<lambda>_.
       run_steps ops n c vg tms ds))) s1 = (r, s')"
    by (simp add: bnd_def time_hook_def s1_def)
  then show ?case
  proof (cases rule: bndE)
    case (err e)
    then have "frame s1 s'" by (auto simp: ViewGroup_init_def dest: frame_alloc)
    with f1 err show ?thesis by (auto intro: frame_but_clock_trans frame_imp_but_clock)
  next
    case init: (ok buf s2)
    then have f2: "frame s1 s2" by (auto simp: ViewGroup_init_def dest: frame_alloc)
    from init(2) show ?thesis
    proof (cases rule: bndE)
      case (err e)
      then have "s' = s2" "r \<noteq> Inr ()" by (auto elim: get_group_cases)
      with f1 f2 show ?thesis by (auto intro: frame_but_clock_trans frame_imp_but_clock)
    next
      case get: (ok g2 s3)
      then have s3: "s3 = s2" and g2: "heap s2 c = Some (OGroup g2)"
        by (auto elim: get_group_cases)
      from get(2) show ?thesis
      proof (cases rule: bndE)
        case (err e)
        with run_tasks_trace[OF err(1)] s3 have "frame_but_clock s2 s'" "r \<noteq> Inr ()" by auto
        with f1 f2 show ?thesis by (blast intro: frame_but_clock_trans frame_imp_but_clock)
      next
        case (ok x s4)
        from run_tasks_trace[OF ok(1)] s3 have f3: "frame_but_clock s2 s4"
          "trace (clk s4) = trace (clk s2) @ replicate (length (scheduled_tasks g2)) Sample"
          by auto
        from Cons.IH[OF ok(2)] have f4: "frame_but_clock s4 s'"
          "\<forall>g. heap s4 c = Some (OGroup g) \<longrightarrow> r = Inr () \<longrightarrow>
             trace (clk s') = trace (clk s4) @ step_events (length (scheduled_tasks g)) ds"
          by auto
        have fr: "frame_but_clock s s'"
          using f1 f2 f3(1) f4(1) by (blast intro: frame_but_clock_trans frame_imp_but_clock)
        have tr: "trace (clk s') = trace (clk s) @ step_events (length (scheduled_tasks g)) (d # ds)"
          if g: "heap s c = Some (OGroup g)" and r: "r = Inr ()" for g
        proof -
          have "heap s1 c = Some (OGroup g)" using g by (simp add: s1_def)
          with f2 obtain ga where ga: "heap s2 c = Some (OGroup ga)"
              "scheduled_tasks ga = scheduled_tasks g"
            using heap_grows_scheduled[of "heap s1" "heap s2" c g] by (auto simp: frame_def)
          with g2 have g2': "scheduled_tasks g2 = scheduled_tasks g" by auto
          from ga f3(1) obtain gb where gb: "heap s4 c = Some (OGroup gb)"
              "scheduled_tasks gb = scheduled_tasks g"
            using heap_grows_scheduled[of "heap s2" "heap s4" c ga]
            by (auto simp: frame_but_clock_def)
          from f4(2) gb r
          have "trace (clk s') = trace (clk s4) @ step_events (length (scheduled_tasks g)) ds"
            by auto
          moreover have "clk s2 = clk s1" using f2 by (simp add: frame_def)
          ultimately show ?thesis using f3(2) g2' by (simp add: s1_def step_events_def)
        qed
        from fr tr show ?thesis by blast
      qed
    qed
  qed
qed

section \<open>The run of a Collector\<close>

lemma setattr_fixed_cases:
  assumes "setattr n a ''fixed'' (VBool b) s = (r, s')"
  obtains (ok) g where "r = Inr ()" "heap s a = Some (OGroup g)"
             "s' = s\<lparr>heap := (heap s)(a \<mapsto> OGroup (g\<lparr>fixed := b\<rparr>))\<rparr>"
        | (err) "r \<noteq> Inr ()" "s' = s"
  using assms
  by (auto simp: setattr_def bnd_def get_group_def put_group_def shallow_def ret_def
      split: option.splits obj.splits prod.splits sum.splits)

lemma schedule_loop_length:
  "schedule_loop c items s = (Inr (), s') \<Longrightarrow> heap s c = Some (OGroup g) \<Longrightarrow>
     clk s' = clk s
     \<and> (\<exists>g'. heap s' c = Some (OGroup g')
           \<and> length (scheduled_tasks g') = length (scheduled_tasks g) + length items)"
proof (induction items arbitrary: s g)
  case Nil
  then show ?case by (simp add: ret_def)
next
  case (Cons e items)
  obtain p v where e: "e = (p, v)" by (cases e)
  have no: "bnd (set_scheduled_tasks c []) (\<lambda>_. raise SchedulingError) s \<noteq> (Inr (), s')"
    by (auto simp: bnd_def raise_def split: prod.splits sum.splits)
  show ?case
  proof (cases v)
    case (VTask tid)
    show ?thesis
    proof (cases "tasks s tid")
      case None
      with Cons.prems e VTask show ?thesis by (simp add: bnd_def get_task_def)
    next
      case (Some t)
      show ?thesis
      proof (cases "is_tuple p \<and> mode t = MERGE")
        case True
        with Cons.prems e VTask Some no show ?thesis
          by (simp add: bnd_def[of "get_task tid"] get_task_def)
      next
        case False
        define t' where "t' = (case t of Aggregator h m _ \<Rightarrow> Aggregator h m (Some p)
                 | Analysis r an sw m _ \<Rightarrow> Analysis r an sw m (Some p))"
        define s1 where "s1 = s\<lparr>tasks := (tasks s)(tid \<mapsto> t'),
              heap := (heap s)(c \<mapsto> OGroup (g\<lparr>scheduled_tasks := scheduled_tasks g @ [tid]\<rparr>))\<rparr>"
        have step: "schedule_loop c (e # items) s = schedule_loop c items s1"
          using False e VTask Some Cons.prems(2)
          by (auto simp: bnd_def get_task_def set_task_path_def append_scheduled_task_def
              get_group_def put_group_def s1_def t'_def)
        have "heap s1 c = Some (OGroup (g\<lparr>scheduled_tasks := scheduled_tasks g @ [tid]\<rparr>))"
          by (simp add: s1_def)
        from Cons.IH[OF Cons.prems(1)[unfolded step] this] show ?thesis
          by (simp add: s1_def)
      qed
    qed
  qed (use Cons.prems e no in auto)
qed

lemma schedule_tasks_length:
  assumes "schedule_tasks c s = (Inr (), s')" "heap s c = Some (OGroup g)"
  shows "clk s' = clk s
     \<and> (\<exists>g'. heap s' c = Some (OGroup g')
           \<and> length (scheduled_tasks g') = length (path_items g))"
  using assms(1) unfolding schedule_tasks_def
proof (cases rule: bndE)
  case (ok x s1)
  from ok(1) assms(2) have s1: "s1 = s\<lparr>heap := (heap s)(c \<mapsto> OGroup (g\<lparr>scheduled_tasks := []\<rparr>))\<rparr>"
    by (auto elim!: set_scheduled_tasks_cases)
  then have h: "heap s1 c = Some (OGroup (g\<lparr>scheduled_tasks := []\<rparr>))" by simp
  from ok(2) h have "schedule_loop c (path_items g) s1 = (Inr (), s')"
    by (simp add: bnd_def get_group_def)
  from schedule_loop_length[OF this h] show ?thesis by (simp add: s1)
qed simp

lemma Collector_call_unfold:
  "Collector_call ops n c viewgroup_arg tms s =
     bnd (setattr n c ''fixed'' (VBool False)) (\<lambda>_.
      bnd (setattr n (viewgroup_param s viewgroup_arg) ''fixed'' (VBool False)) (\<lambda>_.
      bnd (schedule_tasks c) (\<lambda>_.
      bnd (run_steps ops n c (viewgroup_param s viewgroup_arg) tms (diff (0 # tms))) (\<lambda>_.
      bnd (setattr n c ''fixed'' (VBool True)) (\<lambda>_.
      bnd (setattr n (viewgroup_param s viewgroup_arg) ''fixed'' (VBool True)) (\<lambda>_.
        ret (viewgroup_param s viewgroup_arg))))))) s"
  by (simp add: Collector_call_def viewgroup_param_def Let_def)

section \<open>Claim C2\<close>

text \<open>
  C2. Whenever the \<^verbatim>\<open>path_items\<close> of the template of a Collector hold an entry that
  is not a task, or a task in merge mode under a tuple key, the run
  (\<^verbatim>\<open>Collector.__call__\<close>) aborts with a SchedulingError raised by the compilation:
  the clock has been neither advanced nor read, no object has been created, and the
  children, the \<^verbatim>\<open>path_items\<close> and the items of the output tree are what they were
  before the call. The Collector and the output tree are roots, and the tasks the
  template names exist.
\<close>

theorem run_aborts_before_first_step:
  assumes "heap s c = Some (OGroup g)" "parent g = None"
    and "heap s (viewgroup_param s viewgroup_arg) = Some (OGroup og)" "parent og = None"
    and "tasks_known s (path_items g)" "list_ex (not_schedulable s) (path_items g)"
  shows "fst (Collector_call ops n c viewgroup_arg tms s) = Inl SchedulingError
     \<and> clk (snd (Collector_call ops n c viewgroup_arg tms s)) = clk s
     \<and> nxt (snd (Collector_call ops n c viewgroup_arg tms s)) = nxt s
     \<and> (\<exists>og'. heap (snd (Collector_call ops n c viewgroup_arg tms s))
                  (viewgroup_param s viewgroup_arg) = Some (OGroup og')
            \<and> children og' = children og \<and> path_items og' = path_items og
            \<and> attrs og' = attrs og)"
proof -
  define vg where "vg = viewgroup_param s viewgroup_arg"
  define s1 where "s1 = s\<lparr>heap := (heap s)(c \<mapsto> OGroup (g\<lparr>fixed := False\<rparr>))\<rparr>"
  define og1 where "og1 = (if vg = c then g\<lparr>fixed := False\<rparr> else og)"
  define s2 where "s2 = s1\<lparr>heap := (heap s1)(vg \<mapsto> OGroup (og1\<lparr>fixed := False\<rparr>))\<rparr>"
  define g2 where "g2 = (if vg = c then og1\<lparr>fixed := False\<rparr> else g\<lparr>fixed := False\<rparr>)"
  have a1: "setattr n c ''fixed'' (VBool False) s = (Inr (), s1)"
    unfolding s1_def by (rule setattr_fixed_root) (use assms in auto)
  have h1: "heap s1 vg = Some (OGroup og1)" "parent og1 = None"
    using assms by (auto simp: s1_def og1_def vg_def)
  have a2: "setattr n vg ''fixed'' (VBool False) s1 = (Inr (), s2)"
    unfolding s2_def by (rule setattr_fixed_root) (use h1 in auto)
  have h2: "heap s2 c = Some (OGroup g2)" "\<not> fixed g2" "parent g2 = None"
      "path_items g2 = path_items g"
    using assms h1 by (auto simp: s2_def s1_def g2_def og1_def)
  have tk: "tasks_known s2 (path_items g2)" "list_ex (not_schedulable s2) (path_items g2)"
    using assms(5,6) h2(4) same_tasks[of s2 s "path_items g"]
    by (simp_all add: s2_def s1_def)
  have ab: "aborted c g2 s2 (schedule_tasks c s2)"
    by (rule schedule_tasks_aborts) (use h2 tk in auto)
  have run: "Collector_call ops n c viewgroup_arg tms s
               = (Inl SchedulingError, snd (schedule_tasks c s2))"
    using ab
    by (simp add: Collector_call_def vg_def[symmetric, unfolded viewgroup_param_def]
          bnd_Inr[of "setattr n c ''fixed'' (VBool False)" s, OF a1]
          bnd_Inr[of "setattr n vg ''fixed'' (VBool False)" s1, OF a2] bnd_Inl aborted_def)
  have og: "\<exists>og'. heap s2 vg = Some (OGroup og') \<and> children og' = children og
              \<and> path_items og' = path_items og \<and> attrs og' = attrs og"
    using assms by (auto simp: s2_def s1_def og1_def vg_def)
  show ?thesis
  proof (cases "vg = c")
    case True
    with ab og h2 show ?thesis unfolding run vg_def[symmetric]
      by (auto simp: aborted_def s2_def s1_def)
  next
    case False
    with ab og show ?thesis unfolding run vg_def[symmetric]
      by (auto simp: aborted_def s2_def s1_def)
  qed
qed

theorem run_aborts_before_first_step_witness:
  "fst (Collector_call ops0 5 0 (Some 1) [1, 2, 3] st_bad_entry) = Inl SchedulingError
   \<and> clk (snd (Collector_call ops0 5 0 (Some 1) [1, 2, 3] st_bad_entry)) = clk st_bad_entry
   \<and> nxt (snd (Collector_call ops0 5 0 (Some 1) [1, 2, 3] st_bad_entry)) = nxt st_bad_entry
   \<and> (\<exists>og'. heap (snd (Collector_call ops0 5 0 (Some 1) [1, 2, 3] st_bad_entry)) 1
                 = Some (OGroup og')
          \<and> children og' = [] \<and> path_items og' = [] \<and> attrs og' = [])"
proof -
  define g where "g = (new_viewgroup None None)
                  \<lparr>children := [''a'', ''b''],
                   path_items := [(KTuple [''a''], VTask 0), (KTuple [''b''], VView view_x)],
                   attrs := [(''a'', VTask 0), (''b'', VView view_x)],
                   scheduled_tasks := [7]\<rparr>"
  have 1: "heap st_bad_entry 0 = Some (OGroup g)" "parent g = None"
    by (simp_all add: st_bad_entry_def g_def new_viewgroup_def)
  have 2: "heap st_bad_entry (viewgroup_param st_bad_entry (Some 1))
             = Some (OGroup (new_viewgroup None None))"
      "parent (new_viewgroup None None) = None"
    by (simp_all add: st_bad_entry_def viewgroup_param_def new_viewgroup_def)
  have 3: "tasks_known st_bad_entry (path_items g)"
      "list_ex (not_schedulable st_bad_entry) (path_items g)"
    by (simp_all add: st_bad_entry_def g_def tasks_known_def not_schedulable_def)
  from run_aborts_before_first_step [OF 1 2 3, of ops0 5 "[1, 2, 3]"]
  show ?thesis by (simp add: viewgroup_param_def new_viewgroup_def)
qed

section \<open>Claim C3\<close>

text \<open>
  C3, as amended. A run that completes calls \<^verbatim>\<open>time_hook\<close> with the successive
  differences of \<^verbatim>\<open>[0] + times\<close>, in that order, and after each of these calls it
  reads the clock once for every scheduled task, that is once for every entry of the
  template; nothing else touches the clock. For the times \<^verbatim>\<open>[1, 2, 3]\<close> the
  differences are 1, 1, 1.

  The claim as stated fails on the number of readings: \<^verbatim>\<open>self.time_fn()\<close> is an
  argument of the call of each task, so a template of two tasks reads the clock
  twice in every step (and an empty one never).
\<close>

theorem run_clock_trace:
  assumes "Collector_call ops n c viewgroup_arg tms s = (Inr vg, s')"
    and "heap s c = Some (OGroup g)"
  shows "trace (clk s')
           = trace (clk s) @ step_events (length (path_items g)) (diff (0 # tms))
     \<and> diff (0 # [1, 2, 3]) = [1, 1, 1]"
proof -
  define v where "v = viewgroup_param s viewgroup_arg"
  from assms(1) have run: "bnd (setattr n c ''fixed'' (VBool False)) (\<lambda>_.
      bnd (setattr n v ''fixed'' (VBool False)) (\<lambda>_.
      bnd (schedule_tasks c) (\<lambda>_.
      bnd (run_steps ops n c v tms (diff (0 # tms))) (\<lambda>_.
      bnd (setattr n c ''fixed'' (VBool True)) (\<lambda>_.
      bnd (setattr n v ''fixed'' (VBool True)) (\<lambda>_.
        ret v)))))) s = (Inr vg, s')"
    by (simp add: Collector_call_unfold v_def)
  then obtain s1 s2 s3 s4 s5 where
        1: "setattr n c ''fixed'' (VBool False) s = (Inr (), s1)"
    and 2: "setattr n v ''fixed'' (VBool False) s1 = (Inr (), s2)"
    and 3: "schedule_tasks c s2 = (Inr (), s3)"
    and 4: "run_steps ops n c v tms (diff (0 # tms)) s3 = (Inr (), s4)"
    and 5: "setattr n c ''fixed'' (VBool True) s4 = (Inr (), s5)"
    and 6: "setattr n v ''fixed'' (VBool True) s5 = (Inr (), s')"
    by (auto elim!: bndE simp: ret_def)
  from 1 assms(2) have h1: "clk s1 = clk s" "\<exists>g1. heap s1 c = Some (OGroup g1) \<and> path_items g1 = path_items g"
    by (auto elim!: setattr_fixed_cases)
  from 2 h1 have h2: "clk s2 = clk s" "\<exists>g2. heap s2 c = Some (OGroup g2) \<and> path_items g2 = path_items g"
    by (auto elim!: setattr_fixed_cases)
  then obtain g2 where g2: "heap s2 c = Some (OGroup g2)" "path_items g2 = path_items g" by auto
  from schedule_tasks_length[OF 3 g2(1)] g2(2) h2(1)
  obtain g3 where h3: "clk s3 = clk s" "heap s3 c = Some (OGroup g3)"
      "length (scheduled_tasks g3) = length (path_items g)"
    by auto
  from run_steps_trace[OF 4] h3
  have h4: "trace (clk s4) = trace (clk s) @ step_events (length (path_items g)) (diff (0 # tms))"
    by simp
  from 5 6 have "clk s' = clk s4" by (auto dest!: frame_setattr simp: frame_def)
  with h4 show ?thesis by simp
qed

theorem run_clock_trace_witness:
  "trace (clk (snd (Collector_call ops0 4 0 (Some 1) [1, 2, 3] st_one_task)))
      = [Advance 1, Sample, Advance 1, Sample, Advance 1, Sample]"
proof -
  have run: "fst (Collector_call ops0 4 0 (Some 1) [1, 2, 3] st_one_task) = Inr 1"
    by (simp add: st_one_task_def run_defs eval_nat_numeral)
  then have "Collector_call ops0 4 0 (Some 1) [1, 2, 3] st_one_task
               = (Inr 1, snd (Collector_call ops0 4 0 (Some 1) [1, 2, 3] st_one_task))"
    by (metis prod.collapse)
  from run_clock_trace [OF this, of "(new_viewgroup None None)
                  \<lparr>children := [''a''],
                   path_items := [(KTuple [''a''], VTask 0)],
                   attrs := [(''a'', VTask 0)]\<rparr>"]
  show ?thesis by (simp add: st_one_task_def step_events_def)
qed

theorem run_clock_trace_counterexample:
  "fst (Collector_call ops0 4 0 (Some 1) [1, 2, 3] st_two_tasks) = Inr 1
   \<and> trace (clk (snd (Collector_call ops0 4 0 (Some 1) [1, 2, 3] st_two_tasks)))
      = [Advance 1, Sample, Sample, Advance 1, Sample, Sample, Advance 1, Sample, Sample]"
  by (simp add: st_two_tasks_def run_defs eval_nat_numeral)

section \<open>Claim C4\<close>

text \<open>
  C4, as amended. For a stackwise Analysis with a path and a non-empty list of
  scheduled times, the operation is applied (to the resolved reference) exactly when
  the current time equals the last element of the list; at every other time the task
  has no result and the call returns the tree it was given with nothing changed. The
  last element is the maximum when the list is sorted.

  The claim as stated fails on a list that is not ascending: with the times
  \<^verbatim>\<open>[3, 1]\<close> the operation is skipped at time 3, the maximum, and applied at time 1.
\<close>

theorem stackwise_last_time:
  assumes "t = Analysis r an True m (Some p)" "tms \<noteq> []" "tasks s tid = Some t"
  shows "(tm = last tms \<longrightarrow>
            get_result ops t (VGroup a) tm tms s
              = (case resolve ops s r (VGroup a) of
                   Inl e \<Rightarrow> Inl e
                 | Inr view \<Rightarrow> Inr (an (heap s) view)))
       \<and> (tm \<noteq> last tms \<longrightarrow>
            get_result ops t (VGroup a) tm tms s = Inr RNone
            \<and> task_call ops n tid a tm tms s = (Inr a, s))
       \<and> (sorted tms \<longrightarrow> last tms = Max (set tms))"
proof -
  have 1: "tm = last tms \<Longrightarrow> get_result ops t (VGroup a) tm tms s
              = (case resolve ops s r (VGroup a) of
                   Inl e \<Rightarrow> Inl e
                 | Inr view \<Rightarrow> Inr (an (heap s) view))"
    using assms(1,2) by (simp add: get_result_def)
  have 2: "get_result ops t (VGroup a) tm tms s = Inr RNone" if "tm \<noteq> last tms"
    using assms(1,2) that by (simp add: get_result_def)
  have 3: "task_call ops n tid a tm tms s = (Inr a, s)" if "tm \<noteq> last tms"
    using assms(1,3) 2[OF that]
    by (simp add: task_call_def bnd_def get_task_def materialise_def ret_def)
  have 4: "last tms = Max (set tms)" if "sorted tms"
    using that assms(2) by (simp add: sorted_last_Max)
  from 1 2 3 4 show ?thesis by blast
qed

theorem stackwise_last_time_witness:
  "get_result ops0 stackwise_task (VGroup 0) 3 [1, 2, 3] st_tree = Inr (RLeaf (LView view_x))
   \<and> get_result ops0 stackwise_task (VGroup 0) 2 [1, 2, 3] st_tree = Inr RNone
   \<and> task_call ops0 5 0 0 2 [1, 2, 3] st_tree = (Inr 0, st_tree)
   \<and> last [1, 2, 3 :: int] = Max (set [1, 2, 3])"
proof -
  have t: "stackwise_task = Analysis \<lparr>specification_list = [[''a'', ''b'']], slices = []\<rparr>
       (\<lambda>h v. RLeaf (LView view_x)) True SET (Some (KTuple [''r'']))"
      "[1, 2, 3 :: int] \<noteq> []" "tasks st_tree 0 = Some stackwise_task"
    by (simp_all add: stackwise_task_def st_tree_def)
  have r: "resolve ops0 st_tree \<lparr>specification_list = [[''a'', ''b'']], slices = []\<rparr> (VGroup 0)
             = Inr (VView view_xyz)"
    by (simp add: st_tree_def run_defs)
  from stackwise_last_time [OF t, of 3 ops0 0 5] stackwise_last_time [OF t, of 2 ops0 0 5] r
  show ?thesis by simp
qed

theorem stackwise_max_counterexample:
  "Max (set [3, 1 :: int]) = 3
   \<and> get_result ops0 stackwise_task (VGroup 0) 3 [3, 1] st_tree = Inr RNone
   \<and> get_result ops0 stackwise_task (VGroup 0) 1 [3, 1] st_tree = Inr (RLeaf (LView view_x))"
  by (simp add: stackwise_task_def st_tree_def run_defs)

section \<open>Claim C5\<close>



section \<open>Claim C6\<close>




section \<open>Claim C7\<close>

text \<open>
  C7. When the walk of \<^verbatim>\<open>resolve\<close> reaches, in one of the specifications of the
  handle, a level at which the next label is missing (the specifications before it
  resolved, and the labels before it were found), \<^verbatim>\<open>resolve\<close> fails with the
  UnresolvedReferenceError that carries the dotted specification and that label, the
  first one missing; nothing is returned.
\<close>

theorem resolve_missing_label:
  assumes "specification_list r = before @ (pre @ l # rest) # after"
    and "resolve_loop ops s (slices r) viewgroup VNone before = Inr overlaid"
    and "resolve_walk ops s (pre @ l # rest) viewgroup pre = Inr ob"
    and "val_contains ops s ob l = Inr False"
  shows "resolve ops s r viewgroup
           = Inl (UnresolvedReferenceError (join ''.'' (pre @ l # rest)) l)"
proof -
  have "resolve_ref ops s (pre @ l # rest) viewgroup
          = Inl (UnresolvedReferenceError (join ''.'' (pre @ l # rest)) l)"
    unfolding resolve_ref_def
    by (subst resolve_walk_append) (simp add: assms(3,4))
  then show ?thesis
    by (simp add: resolve_def assms(1,2) resolve_loop_append)
qed

theorem resolve_missing_label_witness:
  "resolve ops0 st_tree ref_missing (VGroup 0)
     = Inl (UnresolvedReferenceError ''a.z.q'' ''z'')"
proof -
  have 1: "specification_list ref_missing = [[''a'', ''b'']] @ ([''a''] @ ''z'' # [''q'']) # []"
    by (simp add: ref_missing_def)
  have 2: "resolve_loop ops0 st_tree (slices ref_missing) (VGroup 0) VNone [[''a'', ''b'']]
             = Inr (VView view_xyz)"
    by (simp add: ref_missing_def st_tree_def run_defs)
  have 3: "resolve_walk ops0 st_tree ([''a''] @ ''z'' # [''q'']) (VGroup 0) [''a'']
             = Inr (VGroup 1)"
    by (simp add: st_tree_def run_defs)
  have 4: "val_contains ops0 st_tree (VGroup 1) ''z'' = Inr False"
    by (simp add: st_tree_def run_defs)
  from resolve_missing_label [OF 1 2 3 4] show ?thesis by simp
qed

section \<open>Claim C10\<close>

text \<open>
  C10. Whenever the compilation of the template (\<^verbatim>\<open>_schedule_tasks\<close>) aborts with a
  SchedulingError, the list of scheduled tasks of the Collector is empty in the
  state the error leaves behind: no task of the failed compilation and none of an
  earlier one remains scheduled.
\<close>

theorem schedule_tasks_error_resets:
  assumes "schedule_tasks c s = (Inl SchedulingError, s')"
  shows "\<exists>g. heap s' c = Some (OGroup g) \<and> scheduled_tasks g = []"
  using assms unfolding schedule_tasks_def
  by (elim bndE set_scheduled_tasks_cases get_group_cases) (auto dest: schedule_loop_reset)

theorem schedule_tasks_error_resets_witness:
  "fst (schedule_tasks 0 st_bad_entry) = Inl SchedulingError
   \<and> (\<exists>g. heap (snd (schedule_tasks 0 st_bad_entry)) 0 = Some (OGroup g)
          \<and> scheduled_tasks g = [])"
proof -
  have run: "fst (schedule_tasks 0 st_bad_entry) = Inl SchedulingError"
    by (simp add: st_bad_entry_def run_defs)
  then have "schedule_tasks 0 st_bad_entry
               = (Inl SchedulingError, snd (schedule_tasks 0 st_bad_entry))"
    by (metis prod.collapse)
  from schedule_tasks_error_resets [OF this] run show ?thesis by simp
qed

end
